theory Spec2Isabelle
  imports Complex_Main "HOL-Library.Multiset" "HOL-Library.AList"
begin

section \<open>Data model\<close>

text \<open>
  The development embeds the batch driver \<^verbatim>\<open>._submit.py\<close>: the classes
  \<^verbatim>\<open>LoggerOnRank\<close>, \<^verbatim>\<open>RankTools\<close>, \<^verbatim>\<open>Buffer\<close> and \<^verbatim>\<open>Executor\<close>, and the control
  skeleton of the \<^verbatim>\<open>__main__\<close> block.

  Python floats are idealised as \<^typ>\<open>real\<close>: the program compares grid values for
  equality and evaluates \<^verbatim>\<open>-G.imag / np.pi\<close>, and neither rounding nor NaN is
  modelled. A grid point is the 2-tuple produced by \<^verbatim>\<open>itertools.product\<close>; a
  checkpoint record is the Python list
  \<^verbatim>\<open>[_k, _w, G.real, G.imag, tcomp, largest_mat_dim]\<close> (the integer dimension
  embedded in the reals); a checkpoint file is the pickled queue, a list of
  records.
\<close>

type_synonym grid_point = "real \<times> real"

type_synonym checkpoint_record = "real list"

type_synonym checkpoint_file = "checkpoint_record list"

text \<open>
  The \<^verbatim>\<open>STATE\<close> directory is an association list from file names to file
  contents, in directory order. A results directory \<^verbatim>\<open>pkg/results/<stem>\<close>
  holds the \<^verbatim>\<open>DONE\<close> file (the ranks that tagged it, one per appended line),
  the \<^verbatim>\<open>STATE\<close> directory and \<^verbatim>\<open>res.npy\<close>; each of them, and the results
  directory itself, may be absent (\<open>None\<close>).
\<close>

type_synonym directory = "(string \<times> checkpoint_file) list"

record results_dir =
  done_file :: "nat list option"
  state_dir :: "directory option"
  res_npy :: "real list list option"

type_synonym filesystem = "results_dir option"

datatype error = FileNotFoundError | IndexError | AttributeError | ExternalError

datatype level = DEBUG | INFO | WARNING | ERROR | CRITICAL

text \<open>
  Log messages carry the values that the source formats into the text; the
  formatting itself is not modelled, and the durations that the messages of the
  driver report are left out.
\<close>

datatype msg =
    DoneFileExists string
  | NoJobsToRun string
  | Priming
  | DryRunMode
  | PrintingEvery nat
  | Solved real real real real
  | NegativeSpectralWeight real
  | Progress nat nat real
  | LargestMatrixSize real
  | NoConfigsToRun
  | ConfigIndex nat nat
  | CalculateDone
  | FinalizeDone
  | CleanupDone
  | AllDone

text \<open>
  Every effect of the executor on its surroundings is appended to a trace: a
  line handed to the logger (with the rank that \<^verbatim>\<open>LoggerOnRank\<close> prefixes), a
  listing of \<^verbatim>\<open>STATE\<close>, a file of \<^verbatim>\<open>STATE\<close> read or written, a call of the
  solver, and the write of \<^verbatim>\<open>res.npy\<close>.
\<close>

datatype event =
    Log level nat msg
  | ListDir
  | Load string
  | Dump string
  | SolveCall real real int
  | SaveRes

text \<open>
  The world threads the file system, the trace, and the number of values drawn
  so far from \<^verbatim>\<open>uuid.uuid4()\<close>, \<^verbatim>\<open>time.time()\<close> and \<^verbatim>\<open>np.random.random()\<close>.
\<close>

record world =
  fs :: filesystem
  trace :: "event list"
  uuid_draws :: nat
  clock_reads :: nat
  random_draws :: nat

text \<open>The metadata dictionary returned by the solver: \<^verbatim>\<open>meta['time']\<close>, \<^verbatim>\<open>meta['inv']\<close>.\<close>

record meta =
  meta_time :: "real list"
  meta_inv :: "int list"

text \<open>
  The collaborators and sources of nondeterminism, none of which is under
  \<^verbatim>\<open>src/\<close>, are parameters: the successive values of \<^verbatim>\<open>uuid.uuid4().hex\<close>,
  \<^verbatim>\<open>time.time()\<close> and \<^verbatim>\<open>np.random.random()\<close>; the position of an element in
  the iteration order of a Python set, which the language leaves unspecified
  (\<open>set_rank\<close>: every order of a finite set is the ascending order of some
  ranking); loading and priming \<^verbatim>\<open>SystemParams\<close>; building and priming
  \<^verbatim>\<open>system.System\<close>; and \<^verbatim>\<open>System.solve\<close>.
\<close>

record ('inp, 'sy) env =
  uuid4_hex :: "nat \<Rightarrow> string"
  time_time :: "nat \<Rightarrow> real"
  np_random :: "nat \<Rightarrow> real"
  set_rank :: "grid_point \<Rightarrow> nat"
  load_params :: "string \<Rightarrow> error + 'inp"
  make_system :: "'inp \<Rightarrow> error + 'sy"
  sy_solve :: "'sy \<Rightarrow> real \<Rightarrow> real \<Rightarrow> int \<Rightarrow> error + (complex \<times> meta)"

section \<open>LoggerOnRank and RankTools\<close>

record logger_on_rank =
  rank :: nat
  debug_flag :: bool

record rank_tools =
  SIZE :: nat
  RANK :: nat
  logger :: logger_on_rank

definition RankTools_init :: "nat \<Rightarrow> nat \<Rightarrow> bool \<Rightarrow> rank_tools" where
  "RankTools_init comm_size comm_rank debug =
     \<lparr>SIZE = comm_size, RANK = comm_rank,
      logger = \<lparr>rank = comm_rank, debug_flag = debug\<rparr>\<rparr>"

definition emit :: "level \<Rightarrow> logger_on_rank \<Rightarrow> msg \<Rightarrow> world \<Rightarrow> world" where
  "emit lv lg m s = s\<lparr>trace := trace s @ [Log lv (rank lg) m]\<rparr>"

definition logger_debug :: "logger_on_rank \<Rightarrow> msg \<Rightarrow> world \<Rightarrow> world" where
  "logger_debug lg m s = (if debug_flag lg then emit DEBUG lg m s else s)"

definition logger_info :: "logger_on_rank \<Rightarrow> msg \<Rightarrow> world \<Rightarrow> world" where
  "logger_info lg m s = emit INFO lg m s"

definition logger_warning :: "logger_on_rank \<Rightarrow> msg \<Rightarrow> world \<Rightarrow> world" where
  "logger_warning lg m s = emit WARNING lg m s"

definition logger_error :: "logger_on_rank \<Rightarrow> msg \<Rightarrow> world \<Rightarrow> world" where
  "logger_error lg m s = emit ERROR lg m s"

text \<open>
  \<^verbatim>\<open>xs[start::step]\<close> for \<open>step \<ge> 1\<close>, as CPython builds it: the slice has
  \<open>(len - start + step - 1) div step\<close> elements (none when \<open>start \<ge> len\<close>), the
  \<open>t\<close>-th being \<open>xs[start + t * step]\<close>. A zero step raises in Python; the
  one caller below never evaluates the slice with step 0, since
  \<^verbatim>\<open>range(0)\<close> is empty.
\<close>

definition slice_from_step :: "'a list \<Rightarrow> nat \<Rightarrow> nat \<Rightarrow> 'a list" where
  "slice_from_step xs start step =
     map (\<lambda>t. xs ! (start + t * step)) [0..<(length xs - start + step - 1) div step]"

text \<open>\<^verbatim>\<open>return [jobs[ii::self.SIZE] for ii in range(self.SIZE)]\<close>\<close>

definition chunk_jobs :: "'z rank_tools_scheme \<Rightarrow> 'a list \<Rightarrow> 'a list list" where
  "chunk_jobs self jobs = map (\<lambda>ii. slice_from_step jobs ii (SIZE self)) [0..<SIZE self]"

section \<open>Buffer\<close>

text \<open>
  The target directory of every buffer is the \<^verbatim>\<open>STATE\<close> directory of the file
  system, so the field \<^verbatim>\<open>target_directory\<close> is not repeated in the record.
\<close>

record buffer =
  nbuff :: int
  counter :: nat
  queue :: checkpoint_file

definition Buffer_init :: "int \<Rightarrow> buffer" where
  "Buffer_init n = \<lparr>nbuff = n, counter = 0, queue = []\<rparr>"

text \<open>
  \<^verbatim>\<open>pickle.dump(queue, open(path, 'wb'), protocol=4)\<close>: opening for writing
  creates the file or truncates an existing one of that name, and fails when
  the directory does not exist.
\<close>

definition pickle_dump :: "string \<Rightarrow> checkpoint_file \<Rightarrow> world \<Rightarrow> error + world" where
  "pickle_dump name content s =
     (case fs s of
        None \<Rightarrow> Inl FileNotFoundError
      | Some t \<Rightarrow>
          (case state_dir t of
             None \<Rightarrow> Inl FileNotFoundError
           | Some d \<Rightarrow>
               Inr (s\<lparr>fs := Some (t\<lparr>state_dir := Some (AList.update name content d)\<rparr>),
                      trace := trace s @ [Dump name]\<rparr>)))"

definition uuid_pkl :: "('inp, 'sy) env \<Rightarrow> world \<Rightarrow> string \<times> world" where
  "uuid_pkl e s = (uuid4_hex e (uuid_draws s) @ ''.pkl'', s\<lparr>uuid_draws := Suc (uuid_draws s)\<rparr>)"

definition flush :: "('inp, 'sy) env \<Rightarrow> buffer \<Rightarrow> world \<Rightarrow> error + (buffer \<times> world)" where
  "flush e self s =
     (if counter self > 0 then
        (case uuid_pkl e s of
           (path, s1) \<Rightarrow>
             (case pickle_dump path (queue self) s1 of
                Inl err \<Rightarrow> Inl err
              | Inr s2 \<Rightarrow> Inr (self\<lparr>counter := 0, queue := []\<rparr>, s2)))
      else Inr (self, s))"

definition Buffer_call ::
  "('inp, 'sy) env \<Rightarrow> checkpoint_record \<Rightarrow> buffer \<Rightarrow> world \<Rightarrow> error + (buffer \<times> world)" where
  "Buffer_call e val self s =
     (let self1 = self\<lparr>queue := queue self @ [val], counter := counter self + 1\<rparr>
      in if int (counter self1) \<ge> nbuff self1 then flush e self1 s else Inr (self1, s))"

text \<open>Pushing a sequence of records, one call of the buffer each, stopping at the first error.\<close>

fun push_all ::
  "('inp, 'sy) env \<Rightarrow> checkpoint_record list \<Rightarrow> buffer \<Rightarrow> world \<Rightarrow> error + (buffer \<times> world)" where
  "push_all e [] self s = Inr (self, s)"
| "push_all e (val # vals) self s =
     (case Buffer_call e val self s of
        Inl err \<Rightarrow> Inl err
      | Inr (self1, s1) \<Rightarrow> push_all e vals self1 s1)"

text \<open>The compute phase as the buffer sees it: the pushes, then the final manual flush.\<close>

definition push_then_flush ::
  "('inp, 'sy) env \<Rightarrow> checkpoint_record list \<Rightarrow> buffer \<Rightarrow> world \<Rightarrow> error + (buffer \<times> world)" where
  "push_then_flush e vals self s =
     (case push_all e vals self s of
        Inl err \<Rightarrow> Inl err
      | Inr (self1, s1) \<Rightarrow> flush e self1 s1)"

section \<open>Executor\<close>

record executor = rank_tools +
  dry_run :: bool
  solver :: int
  cfg_nbuff :: int
  cfg :: string
  jobs :: "grid_point list"

text \<open>
  \<^verbatim>\<open>Executor.__init__\<close> copies \<^verbatim>\<open>SIZE\<close>, \<^verbatim>\<open>RANK\<close> and the logger from the rank
  tool; the paths \<^verbatim>\<open>trg\<close>, \<^verbatim>\<open>state_dir\<close> and \<^verbatim>\<open>done_file\<close> are the components of
  the file system. \<^verbatim>\<open>self.jobs\<close> is only set by \<^verbatim>\<open>prep_jobs\<close>.
\<close>

definition Executor_init :: "rank_tools \<Rightarrow> string \<Rightarrow> int \<Rightarrow> bool \<Rightarrow> int \<Rightarrow> executor" where
  "Executor_init rank_tool config slv dry n =
     \<lparr>SIZE = SIZE rank_tool, RANK = RANK rank_tool, logger = logger rank_tool,
      dry_run = dry, solver = slv, cfg_nbuff = n, cfg = config, jobs = []\<rparr>"

text \<open>
  Modelled from the spec: \<^verbatim>\<open>utils.listdir_fullpath\<close> (module \<^verbatim>\<open>ggce.utils.utils\<close>)
  is not among the sources. Following the specification of the resume engine,
  ``reads every checkpoint file present'' and ``must treat a missing directory
  as zero completed work, never as an error'', it returns the paths of the
  files of the directory, and no path for an absent directory.
\<close>

definition listdir_fullpath :: "filesystem \<Rightarrow> string list" where
  "listdir_fullpath f =
     (case f of
        None \<Rightarrow> []
      | Some t \<Rightarrow> (case state_dir t of None \<Rightarrow> [] | Some d \<Rightarrow> map fst d))"

text \<open>\<^verbatim>\<open>pickle.load(open(f, 'rb'))\<close>\<close>

definition pickle_load :: "string \<Rightarrow> world \<Rightarrow> error + (checkpoint_file \<times> world)" where
  "pickle_load name s =
     (case fs s of
        None \<Rightarrow> Inl FileNotFoundError
      | Some t \<Rightarrow>
          (case state_dir t of
             None \<Rightarrow> Inl FileNotFoundError
           | Some d \<Rightarrow>
               (case map_of d name of
                  None \<Rightarrow> Inl FileNotFoundError
                | Some content \<Rightarrow> Inr (content, s\<lparr>trace := trace s @ [Load name]\<rparr>))))"

text \<open>
  The loop of \<^verbatim>\<open>find_remaining_jobs\<close>: \<^verbatim>\<open>completed_jobs.extend([tuple(ll[:2]) for
  ll in loaded_jobs])\<close>. A key is the tuple of the first two fields of a record
  (fewer when the record is shorter).
\<close>

fun load_completed ::
  "string list \<Rightarrow> real list list \<Rightarrow> world \<Rightarrow> error + (real list list \<times> world)" where
  "load_completed [] completed_jobs s = Inr (completed_jobs, s)"
| "load_completed (f # checkpoints) completed_jobs s =
     (case pickle_load f s of
        Inl err \<Rightarrow> Inl err
      | Inr (loaded_jobs, s1) \<Rightarrow>
          load_completed checkpoints (completed_jobs @ map (take 2) loaded_jobs) s1)"

text \<open>The tuple \<open>(k, w)\<close> of a job, for comparison with the keys read from disk.\<close>

definition tuple_of :: "grid_point \<Rightarrow> real list" where
  "tuple_of j = [fst j, snd j]"

text \<open>
  \<^verbatim>\<open>list(set(self.jobs) - set(completed_jobs))\<close>: the distinct jobs without a
  completed key, listed in the iteration order of the resulting set, which is
  the ascending order of the ranking \<open>r\<close>.
\<close>

definition list_of_set_difference ::
  "(grid_point \<Rightarrow> nat) \<Rightarrow> grid_point list \<Rightarrow> real list list \<Rightarrow> grid_point list" where
  "list_of_set_difference r assigned completed_jobs =
     sort_key r (remdups (filter (\<lambda>j. tuple_of j \<notin> set completed_jobs) assigned))"

definition find_remaining_jobs ::
  "('inp, 'sy) env \<Rightarrow> executor \<Rightarrow> world \<Rightarrow> error + (executor \<times> world)" where
  "find_remaining_jobs e self s =
     (let checkpoints = listdir_fullpath (fs s);
          s1 = s\<lparr>trace := trace s @ [ListDir]\<rparr>
      in case load_completed checkpoints [] s1 of
           Inl err \<Rightarrow> Inl err
         | Inr (completed_jobs, s2) \<Rightarrow>
             Inr (self\<lparr>jobs := list_of_set_difference (set_rank e) (jobs self) completed_jobs\<rparr>, s2))"

text \<open>
  \<^verbatim>\<open>prep_jobs\<close>: the product of the grids in row-major order, chunked, and the
  chunk of this rank (an index error when the rank is not below the size).
\<close>

definition prep_jobs :: "executor \<Rightarrow> real list \<Rightarrow> real list \<Rightarrow> error + executor" where
  "prep_jobs self k_grid w_grid =
     (let chunks = chunk_jobs self (List.product k_grid w_grid)
      in if RANK self < length chunks then Inr (self\<lparr>jobs := chunks ! RANK self\<rparr>)
         else Inl IndexError)"

definition read_clock :: "('inp, 'sy) env \<Rightarrow> world \<Rightarrow> real \<times> world" where
  "read_clock e s = (time_time e (clock_reads s), s\<lparr>clock_reads := Suc (clock_reads s)\<rparr>)"

text \<open>
  \<^verbatim>\<open>prime_system\<close>; the values \<^verbatim>\<open>T\<close> and \<^verbatim>\<open>L\<close> that it also returns are never
  used by the caller and are left out.
\<close>

definition prime_system ::
  "('inp, 'sy) env \<Rightarrow> executor \<Rightarrow> 'inp \<Rightarrow> world \<Rightarrow> error + (('sy \<times> real) \<times> world)" where
  "prime_system e self inp s =
     (case read_clock e s of
        (t0, s1) \<Rightarrow>
          (let s2 = (if RANK self = 0 then logger_info (logger self) Priming s1 else s1)
           in case make_system e inp of
                Inl err \<Rightarrow> Inl err
              | Inr sy \<Rightarrow>
                  (case read_clock e s2 of
                     (t1, s3) \<Rightarrow> Inr ((sy, (t1 - t0) / 60), s3))))"

text \<open>\<^verbatim>\<open>dryrun_random_result\<close>: two draws, then \<^verbatim>\<open>(G, 0.0, 0)\<close>.\<close>

definition dryrun_random_result ::
  "('inp, 'sy) env \<Rightarrow> world \<Rightarrow> (complex \<times> real \<times> int) \<times> world" where
  "dryrun_random_result e s =
     ((Complex \<bar>np_random e (random_draws s)\<bar> \<bar>np_random e (Suc (random_draws s))\<bar>, 0, 0),
      s\<lparr>random_draws := random_draws s + 2\<rparr>)"

definition PRINT_EVERY_PERCENT :: real where
  "PRINT_EVERY_PERCENT = 5"

text \<open>\<^verbatim>\<open>A = -G.imag / np.pi\<close>\<close>

definition spectral_amplitude :: "complex \<Rightarrow> real" where
  "spectral_amplitude G = - Im G / pi"

text \<open>
  The non-dry-run branch of the loop body (lines 270 to 286): the solver call,
  the amplitude, the reads of the metadata (an index error on an empty list),
  and the three log lines. It returns \<^verbatim>\<open>(G, tcomp, largest_mat_dim)\<close>.
\<close>

definition solve_point ::
  "('inp, 'sy) env \<Rightarrow> executor \<Rightarrow> 'sy option \<Rightarrow> nat \<Rightarrow> nat \<Rightarrow> nat \<Rightarrow> grid_point \<Rightarrow> world
     \<Rightarrow> error + ((complex \<times> real \<times> int) \<times> world)" where
  "solve_point e self sy print_every L cc job s =
     (case job of
        (k, w) \<Rightarrow>
          (case sy of
             None \<Rightarrow> Inl AttributeError
           | Some system \<Rightarrow>
               (let s1 = s\<lparr>trace := trace s @ [SolveCall (k * pi) w (solver self)]\<rparr>
                in case sy_solve e system (k * pi) w (solver self) of
                     Inl err \<Rightarrow> Inl err
                   | Inr (G, m) \<Rightarrow>
                       (let A = spectral_amplitude G
                        in if meta_time m = [] then Inl IndexError
                           else
                             (let tcomp = last (meta_time m) / 60
                              in case meta_inv m of
                                   [] \<Rightarrow> Inl IndexError
                                 | largest_mat_dim # _ \<Rightarrow>
                                     (let s2 = logger_debug (logger self) (Solved k w A tcomp) s1;
                                          s3 = (if A < 0
                                                then logger_error (logger self)
                                                       (NegativeSpectralWeight A) s2
                                                else s2);
                                          s4 = (if (cc mod print_every = 0 \<or> cc = 0) \<and> RANK self = 0
                                                then logger_info (logger self)
                                                       (Progress cc L tcomp) s3
                                                else s3)
                                      in Inr ((G, tcomp, largest_mat_dim), s4)))))))"

text \<open>
  One iteration of the main loop. The test \<^verbatim>\<open>if not dry_run\<close> reads the name
  \<^verbatim>\<open>dry_run\<close> of the module, not the attribute of the executor: it is the
  parameter \<open>module_dry_run\<close>.
\<close>

definition calculate_point ::
  "('inp, 'sy) env \<Rightarrow> bool \<Rightarrow> executor \<Rightarrow> 'sy option \<Rightarrow> nat \<Rightarrow> nat \<Rightarrow> nat \<Rightarrow> grid_point
     \<Rightarrow> buffer \<Rightarrow> world \<Rightarrow> error + (buffer \<times> world)" where
  "calculate_point e module_dry_run self sy print_every L cc job b s =
     (case (if \<not> module_dry_run then solve_point e self sy print_every L cc job s
            else Inr (dryrun_random_result e s)) of
        Inl err \<Rightarrow> Inl err
      | Inr ((G, tcomp, largest_mat_dim), s1) \<Rightarrow>
          (let val = [fst job, snd job, Re G, Im G, tcomp, real_of_int largest_mat_dim];
               s2 = (if RANK self = 0 \<and> cc = 0
                     then logger_info (logger self)
                            (LargestMatrixSize (real_of_int (largest_mat_dim ^ 2) * 16 / 1000000000)) s1
                     else s1)
           in Buffer_call e val b s2))"

text \<open>\<^verbatim>\<open>for cc, (_k, _w) in enumerate(self.jobs)\<close>, from index \<open>cc\<close> on.\<close>

fun calculate_loop ::
  "('inp, 'sy) env \<Rightarrow> bool \<Rightarrow> executor \<Rightarrow> 'sy option \<Rightarrow> nat \<Rightarrow> nat \<Rightarrow> nat \<Rightarrow> grid_point list
     \<Rightarrow> buffer \<Rightarrow> world \<Rightarrow> error + (buffer \<times> world)" where
  "calculate_loop e module_dry_run self sy print_every L cc [] b s = Inr (b, s)"
| "calculate_loop e module_dry_run self sy print_every L cc (job # rest) b s =
     (case calculate_point e module_dry_run self sy print_every L cc job b s of
        Inl err \<Rightarrow> Inl err
      | Inr (b1, s1) \<Rightarrow> calculate_loop e module_dry_run self sy print_every L (Suc cc) rest b1 s1)"

definition done_file_exists :: "filesystem \<Rightarrow> bool" where
  "done_file_exists f = (case f of None \<Rightarrow> False | Some t \<Rightarrow> done_file t \<noteq> None)"

text \<open>Lines 236 to 239: the size of the buffer, from \<^verbatim>\<open>self.nbuff\<close> and \<^verbatim>\<open>len(self.jobs)\<close>.\<close>

definition buffer_size :: "executor \<Rightarrow> int" where
  "buffer_size self =
     (if cfg_nbuff self > 0 then cfg_nbuff self
      else max (int (length (jobs self)) div 100) 1)"

text \<open>
  Lines 215 to 241 of \<^verbatim>\<open>calculate\<close>, entered when no \<^verbatim>\<open>DONE\<close> file exists: the
  parameters, the jobs of this rank, the early return on an empty job list
  (\<open>Inr (Inl \<dots>)\<close>), the remaining jobs and the buffer (\<open>Inr (Inr \<dots>)\<close>).
\<close>

definition calculate_prepare ::
  "('inp, 'sy) env \<Rightarrow> executor \<Rightarrow> real list \<Rightarrow> real list \<Rightarrow> world
     \<Rightarrow> error + ((executor \<times> world) + ('inp \<times> executor \<times> buffer \<times> world))" where
  "calculate_prepare e self k_grid w_grid s =
     (case load_params e (cfg self) of
        Inl err \<Rightarrow> Inl err
      | Inr inp \<Rightarrow>
          (case prep_jobs self k_grid w_grid of
             Inl err \<Rightarrow> Inl err
           | Inr self1 \<Rightarrow>
               if length (jobs self1) = 0
               then Inr (Inl (self1, logger_warning (logger self1) (NoJobsToRun (cfg self1)) s))
               else
                 (case find_remaining_jobs e self1 s of
                    Inl err \<Rightarrow> Inl err
                  | Inr (self2, s1) \<Rightarrow>
                      Inr (Inr (inp, self2, Buffer_init (buffer_size self2), s1)))))"

text \<open>Lines 245 to 255: priming the system unless in dry-run mode.\<close>

definition calculate_prime ::
  "('inp, 'sy) env \<Rightarrow> executor \<Rightarrow> 'inp \<Rightarrow> world \<Rightarrow> error + ('sy option \<times> world)" where
  "calculate_prime e self inp s =
     (if \<not> dry_run self then
        (case prime_system e self inp s of
           Inl err \<Rightarrow> Inl err
         | Inr ((sy, dt), s1) \<Rightarrow> Inr (Some sy, s1))
      else if RANK self = 0 then Inr (None, logger_warning (logger self) DryRunMode s)
      else Inr (None, s))"

text \<open>Lines 257 to 304: the loop over the remaining jobs, the final flush, the elapsed time.\<close>

definition calculate_run ::
  "('inp, 'sy) env \<Rightarrow> bool \<Rightarrow> executor \<Rightarrow> 'sy option \<Rightarrow> buffer \<Rightarrow> world
     \<Rightarrow> error + (real \<times> world)" where
  "calculate_run e module_dry_run self sy b s =
     (let L = length (jobs self);
          print_every = nat \<lfloor>max (real L * PRINT_EVERY_PERCENT / 100) 1\<rfloor>;
          s1 = (if RANK self = 0 then logger_info (logger self) (PrintingEvery print_every) s
                else s)
      in case read_clock e s1 of
           (overall_config_time, s2) \<Rightarrow>
             (case calculate_loop e module_dry_run self sy print_every L 0 (jobs self) b s2 of
                Inl err \<Rightarrow> Inl err
              | Inr (b1, s3) \<Rightarrow>
                  (case flush e b1 s3 of
                     Inl err \<Rightarrow> Inl err
                   | Inr (b2, s4) \<Rightarrow>
                       (case read_clock e s4 of
                          (t1, s5) \<Rightarrow> Inr (t1 - overall_config_time, s5)))))"

text \<open>
  \<^verbatim>\<open>Executor.calculate\<close>: the elapsed time, the executor (whose \<^verbatim>\<open>jobs\<close>
  attribute the call sets) and the world.
\<close>

definition calculate ::
  "('inp, 'sy) env \<Rightarrow> bool \<Rightarrow> executor \<Rightarrow> real list \<Rightarrow> real list \<Rightarrow> world
     \<Rightarrow> error + (real \<times> executor \<times> world)" where
  "calculate e module_dry_run self k_grid w_grid s =
     (if done_file_exists (fs s)
      then Inr (0, self, logger_warning (logger self) (DoneFileExists (cfg self)) s)
      else
        (case calculate_prepare e self k_grid w_grid s of
           Inl err \<Rightarrow> Inl err
         | Inr (Inl (self1, s1)) \<Rightarrow> Inr (0, self1, s1)
         | Inr (Inr (inp, self2, b, s1)) \<Rightarrow>
             (case calculate_prime e self2 inp s1 of
                Inl err \<Rightarrow> Inl err
              | Inr (sy, s2) \<Rightarrow>
                  (case calculate_run e module_dry_run self2 sy b s2 of
                     Inl err \<Rightarrow> Inl err
                   | Inr (elapsed, s3) \<Rightarrow> Inr (elapsed, self2, s3)))))"

text \<open>
  \<^verbatim>\<open>save_final\<close>: nothing on a rank other than 0; on rank 0 the array is
  written to \<^verbatim>\<open>res.npy\<close> of the results directory, which must exist.
\<close>

definition save_final :: "executor \<Rightarrow> real list list \<Rightarrow> world \<Rightarrow> error + world" where
  "save_final self arr s =
     (if RANK self \<noteq> 0 then Inr s
      else
        (case fs s of
           None \<Rightarrow> Inl FileNotFoundError
         | Some t \<Rightarrow>
             Inr (s\<lparr>fs := Some (t\<lparr>res_npy := Some arr\<rparr>), trace := trace s @ [SaveRes]\<rparr>)))"

section \<open>The driver\<close>

text \<open>
  The \<^verbatim>\<open>__main__\<close> block from line 363 on, as the sequence of operations that
  the process of one rank issues, given the list of configurations that the
  broadcast delivers (the same list on every rank). The operations are the
  collective calls on the communicator, the lines logged, and the calls of
  the executor, which are kept opaque here: what a call computes depends on
  what the other ranks have written to the shared file system in the meantime.
  \<^verbatim>\<open>COMM.Abort()\<close> is recorded like every other call on the communicator. The
  test for the empty list at line 370 has no \<^verbatim>\<open>else\<close> and nothing leaves the
  block after the call, so the steps written after it are those that the
  process goes on to whenever the call returns: the loop over the (empty) list,
  the last barrier, and the pause and the closing line on rank 0.
\<close>

datatype collective = Bcast | Gather | Scatter | Barrier | Abort

datatype step =
    Collective collective
  | Say level nat msg
  | CallCalculate string
  | ListState string
  | CallFinalize string
  | CallSaveFinal string
  | CallCleanup string
  | RmdirState string
  | Sleep

text \<open>One iteration of the loop over the configurations (lines 375 to 450).\<close>

definition config_steps :: "nat \<Rightarrow> nat \<Rightarrow> nat \<Rightarrow> string \<Rightarrow> step list" where
  "config_steps r L config_index config_path =
     (if r = 0 then [Say INFO r (ConfigIndex (config_index + 1) L)] else [])
     @ [CallCalculate config_path, Collective Gather]
     @ (if r = 0 then [Say INFO r CalculateDone] else [])
     @ [Collective Barrier]
     @ (if r = 0 then [ListState config_path] else [])
     @ [Collective Scatter, CallFinalize config_path, Collective Gather]
     @ (if r = 0 then [Say INFO r FinalizeDone] else [])
     @ (if r = 0 then [CallSaveFinal config_path] else [])
     @ [Collective Barrier]
     @ [CallCleanup config_path, Collective Barrier]
     @ (if r = 0 then [RmdirState config_path] else [])
     @ (if r = 0 then [Say INFO r CleanupDone] else [])
     @ [Collective Barrier]"

definition main_steps :: "nat \<Rightarrow> string list \<Rightarrow> step list" where
  "main_steps r all_configs_paths =
     [Collective Bcast, Collective Bcast, Collective Bcast]
     @ (if all_configs_paths = []
        then (if r = 0 then [Say WARNING r NoConfigsToRun] else []) @ [Collective Abort]
        else [])
     @ concat (map (\<lambda>(config_index, config_path).
                      config_steps r (length all_configs_paths) config_index config_path)
                 (enumerate 0 all_configs_paths))
     @ [Collective Barrier]
     @ (if r = 0 then [Sleep, Say INFO r AllDone] else [])"

fun collective_of :: "step \<Rightarrow> collective option" where
  "collective_of (Collective c) = Some c"
| "collective_of other = None"

text \<open>The collective calls of a sequence of steps, in order.\<close>

definition collectives :: "step list \<Rightarrow> collective list" where
  "collectives steps = List.map_filter collective_of steps"

section \<open>Example inputs\<close>

text \<open>Concrete inputs at which the theorems below are instantiated.\<close>

definition example_executor :: executor where
  "example_executor = Executor_init (RankTools_init 2 1 False) ''config_a'' 0 False 0"

definition example_jobs :: "grid_point list" where
  "example_jobs = [(0, 0), (0, 1), (1, 0)]"

definition example_env :: "(unit, unit) env" where
  "example_env =
     \<lparr>uuid4_hex = (\<lambda>n. replicate (Suc n) CHR ''a''),
      time_time = real,
      np_random = (\<lambda>n. 1 / 2),
      set_rank = (\<lambda>j. 0),
      load_params = (\<lambda>c. Inr ()),
      make_system = (\<lambda>i. Inr ()),
      sy_solve = (\<lambda>sy k w m. Inr (Complex w 1, \<lparr>meta_time = [30, 120], meta_inv = [4, 2]\<rparr>))\<rparr>"

definition example_state :: directory where
  "example_state = [(''old.pkl'', [[0, 0, 1, 1, 2, 4]])]"

definition example_results :: results_dir where
  "example_results = \<lparr>done_file = None, state_dir = Some example_state, res_npy = None\<rparr>"

definition example_world :: world where
  "example_world =
     \<lparr>fs = Some example_results, trace = [], uuid_draws = 0, clock_reads = 0, random_draws = 0\<rparr>"

definition example_records :: "checkpoint_record list" where
  "example_records = [[0, 0, 1, 1, 2, 4], [0, 1 / 2, 1, 1, 2, 4], [0, 1, 1, 1, 2, 4]]"

definition example_absent_world :: world where
  "example_absent_world = example_world\<lparr>fs := Some (example_results\<lparr>state_dir := None\<rparr>)\<rparr>"

definition example_done_world :: world where
  "example_done_world = example_world\<lparr>fs := Some (example_results\<lparr>done_file := Some [0]\<rparr>)\<rparr>"

text \<open>
  A single worker with automatic batch size, 200 grid points, and a \<^verbatim>\<open>STATE\<close>
  directory whose one file records the point \<open>(0, 0)\<close>.
\<close>

definition example_single_executor :: executor where
  "example_single_executor = Executor_init (RankTools_init 1 0 False) ''config_a'' 0 False (- 1)"

definition example_k_grid :: "real list" where
  "example_k_grid = map real [0..<200]"

text \<open>The batch size of the buffer that the preparation of \<^verbatim>\<open>calculate\<close> builds, if it builds one.\<close>

definition prepared_nbuff ::
  "error + ((executor \<times> world) + ('inp \<times> executor \<times> buffer \<times> world)) \<Rightarrow> int option" where
  "prepared_nbuff r = (case r of Inr (Inr (inp, self2, b, s1)) \<Rightarrow> Some (nbuff b) | _ \<Rightarrow> None)"

text \<open>The number of jobs assigned by \<^verbatim>\<open>prep_jobs\<close>, if it succeeds.\<close>

definition assigned_count :: "error + executor \<Rightarrow> nat option" where
  "assigned_count r = (case r of Inr self1 \<Rightarrow> Some (length (jobs self1)) | Inl err \<Rightarrow> None)"

text \<open>A single worker in dry-run mode with batch size 2.\<close>

definition example_dry_executor :: executor where
  "example_dry_executor = Executor_init (RankTools_init 1 0 False) ''config_a'' 0 True 2"

section \<open>The partitioner\<close>

lemma slice_count:
  assumes "0 < W"
  shows "i + t * W < G \<longleftrightarrow> t < (G - i + W - 1) div (W::nat)"
proof -
  have "(G - i + W - 1) div W < Suc t \<longleftrightarrow> G - i + W - 1 < Suc t * W"
    using assms by (rule div_less_iff_less_mult)
  also have "\<dots> \<longleftrightarrow> G - i \<le> t * W"
    using assms by auto
  finally have "t < (G - i + W - 1) div W \<longleftrightarrow> t * W < G - i"
    by linarith
  then show ?thesis by auto
qed

text \<open>The indices below \<open>G\<close> congruent to \<open>i\<close> modulo \<open>W\<close>, ascending, are \<open>i, i + W, i + 2 W, \<dots>\<close>\<close>

lemma stride_indices:
  assumes "i < W"
  shows "filter (\<lambda>j. j mod W = i) [0..<G] = map (\<lambda>t. i + t * W) [0..<(G - i + W - 1) div W]"
    (is "?L = ?R")
proof (rule sorted_distinct_set_unique)
  have W: "0 < W" using assms by simp
  show "sorted ?L" by (simp add: sorted_wrt_filter)
  show "distinct ?L" by simp
  show "sorted ?R"
    using W by (auto simp: sorted_map sorted_wrt_iff_nth_less)
  show "distinct ?R"
    using W by (simp add: distinct_map inj_on_def)
  show "set ?L = set ?R"
  proof (intro set_eqI iffI)
    fix j assume "j \<in> set ?L"
    then have j: "j < G" "j mod W = i" by auto
    then have eq: "j = i + (j div W) * W" by (metis mod_div_mult_eq)
    with j have "j div W < (G - i + W - 1) div W"
      using slice_count [OF W, of i "j div W" G] by simp
    with eq show "j \<in> set ?R" by auto
  next
    fix j assume "j \<in> set ?R"
    then obtain t where t: "t < (G - i + W - 1) div W" "j = i + t * W" by auto
    then have "j < G" using slice_count [OF W, of i t G] by simp
    moreover have "j mod W = i" using t assms by simp
    ultimately show "j \<in> set ?L" by simp
  qed
qed

lemma slice_from_step_indices:
  assumes "i < W"
  shows "slice_from_step js i W = map ((!) js) (filter (\<lambda>j. j mod W = i) [0..<length js])"
  by (simp add: slice_from_step_def stride_indices [OF assms] o_def)

lemma sum_filter_mod:
  assumes "0 < W"
  shows "(\<Sum>i\<in>{0..<W}. filter_mset (\<lambda>j. j mod W = i) M) = (M::nat multiset)"
proof (rule multiset_eqI)
  fix x :: nat
  have "count (\<Sum>i\<in>{0..<W}. filter_mset (\<lambda>j. j mod W = i) M) x
      = (\<Sum>i\<in>{0..<W}. if x mod W = i then count M x else 0)"
    by (simp add: count_sum)
  also have "\<dots> = count M x"
    using assms by simp
  finally show "count (\<Sum>i\<in>{0..<W}. filter_mset (\<lambda>j. j mod W = i) M) x = count M x" .
qed

lemma mset_concat_map:
  "mset (concat (map f xs)) = sum_list (map (\<lambda>x. mset (f x)) xs)"
  by (induction xs) simp_all

lemma image_mset_sum_finite:
  "finite A \<Longrightarrow> image_mset f (\<Sum>i\<in>A. g i) = (\<Sum>i\<in>A. image_mset f (g i))"
  by (induction A rule: finite_induct) simp_all

lemma mset_concat_chunks:
  assumes "0 < SIZE self"
  shows "mset (concat (chunk_jobs self js)) = mset js"
proof -
  let ?G = "length js" and ?W = "SIZE self"
  have "mset (concat (chunk_jobs self js))
      = (\<Sum>i\<in>{0..<?W}. mset (slice_from_step js i ?W))"
    by (simp add: chunk_jobs_def mset_concat_map interv_sum_list_conv_sum_set_nat)
  also have "\<dots> = (\<Sum>i\<in>{0..<?W}.
      image_mset ((!) js) (filter_mset (\<lambda>j. j mod ?W = i) (mset [0..<?G])))"
    by (rule sum.cong) (simp_all add: slice_from_step_indices)
  also have "\<dots> = image_mset ((!) js)
      (\<Sum>i\<in>{0..<?W}. filter_mset (\<lambda>j. j mod ?W = i) (mset [0..<?G]))"
    by (simp add: image_mset_sum_finite)
  also have "\<dots> = image_mset ((!) js) (mset [0..<?G])"
    by (simp only: sum_filter_mod [OF assms])
  also have "\<dots> = mset (map ((!) js) [0..<?G])" by simp
  also have "\<dots> = mset js" by (simp only: map_nth)
  finally show ?thesis .
qed

lemma chunk_jobs_nth:
  assumes "i < SIZE self"
  shows "chunk_jobs self js ! i
       = map ((!) js) (filter (\<lambda>j. j mod SIZE self = i) [0..<length js])"
  using assms by (simp add: chunk_jobs_def slice_from_step_indices)

lemma prep_jobs_chunk:
  assumes "RANK self < SIZE self"
  shows "prep_jobs self k_grid w_grid
       = Inr (self\<lparr>jobs := chunk_jobs self (List.product k_grid w_grid) ! RANK self\<rparr>)"
  using assms by (simp add: prep_jobs_def chunk_jobs_def)

text \<open>
  Claim C1. For every job list and every worker count \<open>W \<ge> 1\<close>, \<^verbatim>\<open>chunk_jobs\<close>
  returns \<open>W\<close> chunks; chunk \<open>i\<close> holds exactly the elements whose index is
  congruent to \<open>i\<close> modulo \<open>W\<close>, in input order (so the chunks sit at disjoint
  index sets); the chunks together hold every element of the input exactly as
  often as the input does; and \<^verbatim>\<open>prep_jobs\<close> assigns to a worker of rank below
  \<open>W\<close> the chunk of its rank, taken from the product of the two grids.
\<close>

theorem chunk_jobs_partition:
  assumes "1 \<le> SIZE self"
  shows "length (chunk_jobs self js) = SIZE self
       \<and> (\<forall>i<SIZE self. chunk_jobs self js ! i
             = map ((!) js) (filter (\<lambda>j. j mod SIZE self = i) [0..<length js]))
       \<and> mset (concat (chunk_jobs self js)) = mset js
       \<and> (RANK self < SIZE self \<longrightarrow>
            prep_jobs self k_grid w_grid
              = Inr (self\<lparr>jobs := map ((!) (List.product k_grid w_grid))
                      (filter (\<lambda>j. j mod SIZE self = RANK self)
                         [0..<length (List.product k_grid w_grid)])\<rparr>))"
proof (intro conjI allI impI)
  show "length (chunk_jobs self js) = SIZE self"
    by (simp add: chunk_jobs_def)
  show "chunk_jobs self js ! i
      = map ((!) js) (filter (\<lambda>j. j mod SIZE self = i) [0..<length js])"
    if "i < SIZE self" for i
    using that by (rule chunk_jobs_nth)
  show "mset (concat (chunk_jobs self js)) = mset js"
    using assms by (intro mset_concat_chunks) simp
  show "prep_jobs self k_grid w_grid
      = Inr (self\<lparr>jobs := map ((!) (List.product k_grid w_grid))
              (filter (\<lambda>j. j mod SIZE self = RANK self)
                 [0..<length (List.product k_grid w_grid)])\<rparr>)"
    if "RANK self < SIZE self"
    using that by (simp only: prep_jobs_chunk chunk_jobs_nth)
qed

theorem chunk_jobs_partition_witness:
  "1 \<le> SIZE example_executor
   \<and> length (chunk_jobs example_executor example_jobs) = 2
   \<and> chunk_jobs example_executor example_jobs ! 1 = [(0, 1)]
   \<and> mset (concat (chunk_jobs example_executor example_jobs)) = mset example_jobs
   \<and> prep_jobs example_executor [0, 1] [0, 1 / 2, 1]
       = Inr (example_executor\<lparr>jobs := [(0, 1 / 2), (1, 0), (1, 1)]\<rparr>)"
proof -
  let ?ex = "example_executor"
  let ?js = "example_jobs"
  have size: "SIZE ?ex = 2" and rk: "RANK ?ex = 1"
    by (simp_all add: example_executor_def Executor_init_def RankTools_init_def)
  have h: "1 \<le> SIZE ?ex" by (simp add: size)
  note part = chunk_jobs_partition [OF h, of ?js "[0, 1]" "[0, 1 / 2, 1]"]
  have idx3: "filter (\<lambda>j. j mod 2 = Suc 0) [0..<3] = [1::nat]"
    by (simp add: upt_rec)
  have idx6: "filter (\<lambda>j. j mod 2 = Suc 0) [0..<6] = [1, 3, 5::nat]"
    by (simp add: upt_rec)
  have len: "length (chunk_jobs ?ex ?js) = 2"
    using part size by simp
  have "1 < SIZE ?ex" by (simp add: size)
  with part have "chunk_jobs ?ex ?js ! 1
      = map ((!) ?js) (filter (\<lambda>j. j mod SIZE ?ex = 1) [0..<length ?js])"
    by blast
  then have one: "chunk_jobs ?ex ?js ! 1 = [(0, 1)]"
    by (simp add: size idx3 example_jobs_def)
  have all: "mset (concat (chunk_jobs ?ex ?js)) = mset ?js"
    using part by blast
  have "RANK ?ex < SIZE ?ex" by (simp add: size rk)
  with part have "prep_jobs ?ex [0, 1] [0, 1 / 2, 1]
       = Inr (?ex\<lparr>jobs := map ((!) (List.product [0, 1] [0, 1 / 2, 1]))
            (filter (\<lambda>j. j mod SIZE ?ex = RANK ?ex)
               [0..<length (List.product [0, 1::real] [0, 1 / 2, 1::real])])\<rparr>)"
    by blast
  then have prep: "prep_jobs ?ex [0, 1] [0, 1 / 2, 1]
       = Inr (?ex\<lparr>jobs := [(0, 1 / 2), (1, 0), (1, 1)]\<rparr>)"
    by (simp add: size rk idx6)
  show ?thesis using h len one all prep by blast
qed

section \<open>The checkpoint buffer\<close>

lemma update_fresh:
  "k \<notin> fst ` set al \<Longrightarrow> AList.update k v al = al @ [(k, v)]"
  by (induction al) auto

lemma set_update_subset:
  "set (AList.update k v al) \<subseteq> insert (k, v) (set al)"
  by (induction al) auto

lemma fold_update_fresh:
  "distinct (map fst news) \<Longrightarrow> fst ` set news \<inter> fst ` set d = {}
   \<Longrightarrow> fold (\<lambda>(n, c). AList.update n c) news d = d @ news"
proof (induction news arbitrary: d)
  case Nil
  then show ?case by simp
next
  case (Cons p news)
  obtain n c where p: "p = (n, c)" by (cases p)
  from Cons.prems p have fresh: "n \<notin> fst ` set d" by auto
  have "fold (\<lambda>(n, c). AList.update n c) news (d @ [(n, c)]) = (d @ [(n, c)]) @ news"
    using Cons.prems p by (intro Cons.IH) auto
  then show ?case using p fresh by (simp add: update_fresh)
qed

lemma set_fold_update_subset:
  "set (fold (\<lambda>(n, c). AList.update n c) news d) \<subseteq> set d \<union> set news"
proof (induction news arbitrary: d)
  case Nil
  then show ?case by simp
next
  case (Cons p news)
  obtain n c where p: "p = (n, c)" by (cases p)
  have "set (fold (\<lambda>(n, c). AList.update n c) news (AList.update n c d))
      \<subseteq> set (AList.update n c d) \<union> set news"
    by (rule Cons.IH)
  also have "\<dots> \<subseteq> insert (n, c) (set d) \<union> set news"
    using set_update_subset [of n c d] by auto
  finally show ?case using p by auto
qed

text \<open>What a flush does when the directory exists, and on a buffer with no record.\<close>

lemma flush_writes:
  assumes "fs s = Some t" and "state_dir t = Some d" and "0 < counter b"
  shows "\<exists>s'. flush e b s = Inr (b\<lparr>counter := 0, queue := []\<rparr>, s')
     \<and> fs s' = Some (t\<lparr>state_dir := Some (AList.update (uuid4_hex e (uuid_draws s) @ ''.pkl'') (queue b) d)\<rparr>)
     \<and> uuid_draws s' = Suc (uuid_draws s)
     \<and> trace s' = trace s @ [Dump (uuid4_hex e (uuid_draws s) @ ''.pkl'')]"
  using assms by (simp add: flush_def uuid_pkl_def pickle_dump_def)

lemma flush_empty:
  "counter b = 0 \<Longrightarrow> flush e b s = Inr (b, s)"
  by (simp add: flush_def)

lemma push_all_files:
  assumes "fs s = Some t" and "state_dir t = Some d" and "counter b = length (queue b)"
  shows "\<exists>b' s' news. push_all e vals b s = Inr (b', s')
     \<and> fs s' = Some (t\<lparr>state_dir := Some (fold (\<lambda>(n, c). AList.update n c) news d)\<rparr>)
     \<and> map fst news = map (\<lambda>n. uuid4_hex e n @ ''.pkl'') [uuid_draws s..<uuid_draws s']
     \<and> uuid_draws s \<le> uuid_draws s'
     \<and> concat (map snd news) @ queue b' = queue b @ vals
     \<and> [] \<notin> set (map snd news)
     \<and> counter b' = length (queue b')
     \<and> nbuff b' = nbuff b
     \<and> trace s' = trace s @ map (\<lambda>p. Dump (fst p)) news"
  using assms
proof (induction vals arbitrary: b s t d)
  case Nil
  show ?case
    by (rule exI [of _ b], rule exI [of _ s], rule exI [of _ "[]"]) (simp add: Nil)
next
  case (Cons val vals)
  let ?b1 = "b\<lparr>queue := queue b @ [val], counter := counter b + 1\<rparr>"
  let ?name = "uuid4_hex e (uuid_draws s) @ ''.pkl''"
  show ?case
  proof (cases "int (counter ?b1) \<ge> nbuff ?b1")
    case True
    have pos: "0 < counter ?b1" by simp
    from flush_writes [OF Cons.prems(1,2) pos, of e]
    obtain s1 where s1: "flush e ?b1 s = Inr (?b1\<lparr>counter := 0, queue := []\<rparr>, s1)"
      "fs s1 = Some (t\<lparr>state_dir := Some (AList.update ?name (queue ?b1) d)\<rparr>)"
      "uuid_draws s1 = Suc (uuid_draws s)"
      "trace s1 = trace s @ [Dump ?name]"
      by auto
    let ?b2 = "?b1\<lparr>counter := 0, queue := []\<rparr>"
    let ?t1 = "t\<lparr>state_dir := Some (AList.update ?name (queue ?b1) d)\<rparr>"
    have call: "Buffer_call e val b s = Inr (?b2, s1)"
      using True s1(1) by (simp add: Buffer_call_def Let_def)
    have "\<exists>b' s' news. push_all e vals ?b2 s1 = Inr (b', s')
     \<and> fs s' = Some (?t1\<lparr>state_dir := Some (fold (\<lambda>(n, c). AList.update n c) news (AList.update ?name (queue ?b1) d))\<rparr>)
     \<and> map fst news = map (\<lambda>n. uuid4_hex e n @ ''.pkl'') [uuid_draws s1..<uuid_draws s']
     \<and> uuid_draws s1 \<le> uuid_draws s'
     \<and> concat (map snd news) @ queue b' = queue ?b2 @ vals
     \<and> [] \<notin> set (map snd news)
     \<and> counter b' = length (queue b')
     \<and> nbuff b' = nbuff ?b2
     \<and> trace s' = trace s1 @ map (\<lambda>p. Dump (fst p)) news"
      by (rule Cons.IH) (simp_all add: s1)
    then obtain b' s' news where ih: "push_all e vals ?b2 s1 = Inr (b', s')"
      "fs s' = Some (?t1\<lparr>state_dir := Some (fold (\<lambda>(n, c). AList.update n c) news (AList.update ?name (queue ?b1) d))\<rparr>)"
      "map fst news = map (\<lambda>n. uuid4_hex e n @ ''.pkl'') [uuid_draws s1..<uuid_draws s']"
      "uuid_draws s1 \<le> uuid_draws s'"
      "concat (map snd news) @ queue b' = queue ?b2 @ vals"
      "[] \<notin> set (map snd news)"
      "counter b' = length (queue b')"
      "nbuff b' = nbuff ?b2"
      "trace s' = trace s1 @ map (\<lambda>p. Dump (fst p)) news"
      by blast
    let ?news = "(?name, queue ?b1) # news"
    have upt: "[uuid_draws s..<uuid_draws s'] = uuid_draws s # [uuid_draws s1..<uuid_draws s']"
      using ih(4) s1(3) by (simp add: upt_conv_Cons)
    show ?thesis
      apply (rule exI [of _ b'], rule exI [of _ s'], rule exI [of _ ?news])
      using ih s1 call upt by simp
  next
    case False
    have call: "Buffer_call e val b s = Inr (?b1, s)"
      using False by (simp add: Buffer_call_def Let_def)
    have "\<exists>b' s' news. push_all e vals ?b1 s = Inr (b', s')
     \<and> fs s' = Some (t\<lparr>state_dir := Some (fold (\<lambda>(n, c). AList.update n c) news d)\<rparr>)
     \<and> map fst news = map (\<lambda>n. uuid4_hex e n @ ''.pkl'') [uuid_draws s..<uuid_draws s']
     \<and> uuid_draws s \<le> uuid_draws s'
     \<and> concat (map snd news) @ queue b' = queue ?b1 @ vals
     \<and> [] \<notin> set (map snd news)
     \<and> counter b' = length (queue b')
     \<and> nbuff b' = nbuff ?b1
     \<and> trace s' = trace s @ map (\<lambda>p. Dump (fst p)) news"
      by (rule Cons.IH) (simp_all add: Cons.prems)
    then show ?thesis using call by simp
  qed
qed


lemma push_then_flush_files:
  assumes "fs s = Some t" and "state_dir t = Some d" and "counter b = length (queue b)"
  shows "\<exists>b' s' news. push_then_flush e vals b s = Inr (b', s')
     \<and> fs s' = Some (t\<lparr>state_dir := Some (fold (\<lambda>(n, c). AList.update n c) news d)\<rparr>)
     \<and> map fst news = map (\<lambda>n. uuid4_hex e n @ ''.pkl'') [uuid_draws s..<uuid_draws s']
     \<and> concat (map snd news) = queue b @ vals
     \<and> [] \<notin> set (map snd news)
     \<and> queue b' = [] \<and> counter b' = 0
     \<and> trace s' = trace s @ map (\<lambda>p. Dump (fst p)) news"
proof -
  from push_all_files [OF assms, of e vals]
  obtain b1 s1 news where p: "push_all e vals b s = Inr (b1, s1)"
      "fs s1 = Some (t\<lparr>state_dir := Some (fold (\<lambda>(n, c). AList.update n c) news d)\<rparr>)"
      "map fst news = map (\<lambda>n. uuid4_hex e n @ ''.pkl'') [uuid_draws s..<uuid_draws s1]"
      "uuid_draws s \<le> uuid_draws s1"
      "concat (map snd news) @ queue b1 = queue b @ vals"
      "[] \<notin> set (map snd news)"
      "counter b1 = length (queue b1)"
      "trace s1 = trace s @ map (\<lambda>p. Dump (fst p)) news"
    by blast
  show ?thesis
  proof (cases "counter b1 = 0")
    case True
    then have "flush e b1 s1 = Inr (b1, s1)" by (rule flush_empty)
    then have "push_then_flush e vals b s = Inr (b1, s1)"
      using p(1) by (simp add: push_then_flush_def)
    moreover have "queue b1 = []" using True p(7) by simp
    ultimately show ?thesis
      apply (intro exI [of _ b1] exI [of _ s1] exI [of _ news])
      using p True by simp
  next
    case False
    let ?name = "uuid4_hex e (uuid_draws s1) @ ''.pkl''"
    let ?t1 = "t\<lparr>state_dir := Some (fold (\<lambda>(n, c). AList.update n c) news d)\<rparr>"
    have dir1: "state_dir ?t1 = Some (fold (\<lambda>(n, c). AList.update n c) news d)" by simp
    from False have pos: "0 < counter b1" by simp
    from flush_writes [OF p(2) dir1 pos, of e]
    obtain s2 where s2: "flush e b1 s1 = Inr (b1\<lparr>counter := 0, queue := []\<rparr>, s2)"
      "fs s2 = Some (?t1\<lparr>state_dir := Some (AList.update ?name (queue b1)
                 (fold (\<lambda>(n, c). AList.update n c) news d))\<rparr>)"
      "uuid_draws s2 = Suc (uuid_draws s1)"
      "trace s2 = trace s1 @ [Dump ?name]"
      by blast
    have run: "push_then_flush e vals b s = Inr (b1\<lparr>counter := 0, queue := []\<rparr>, s2)"
      using p(1) s2(1) by (simp add: push_then_flush_def)
    have nonempty: "queue b1 \<noteq> []" using pos p(7) by auto
    have upt: "[uuid_draws s..<uuid_draws s2] = [uuid_draws s..<uuid_draws s1] @ [uuid_draws s1]"
      using p(4) s2(3) by simp
    show ?thesis
      apply (intro exI [of _ "b1\<lparr>counter := 0, queue := []\<rparr>"] exI [of _ s2]
                   exI [of _ "news @ [(?name, queue b1)]"])
      using run s2 p nonempty upt by simp
  qed
qed

lemma pkl_names_distinct:
  assumes "inj (uuid4_hex e)"
  shows "distinct (map (\<lambda>n. uuid4_hex e n @ ''.pkl'') [a..<b])"
proof -
  have "inj_on (\<lambda>n. uuid4_hex e n @ ''.pkl'') (set [a..<b])"
    using assms by (auto simp: inj_on_def)
  then show ?thesis by (simp add: distinct_map)
qed

lemma Buffer_init_invariant: "counter (Buffer_init B) = length (queue (Buffer_init B))"
  by (simp add: Buffer_init_def)

text \<open>
  Claim C2. Starting from a new buffer of any batch size \<open>B\<close> (in particular
  \<open>1 \<le> B \<le> N\<close>), in an existing \<^verbatim>\<open>STATE\<close> directory and with file names
  from \<^verbatim>\<open>uuid4\<close> that are pairwise distinct and not yet in the directory, pushing
  \<open>N\<close> records and then flushing manually succeeds and appends to the directory
  new files whose contents, concatenated in the order written, are exactly the
  pushed sequence: the files hold \<open>N\<close> records in all, none is lost and none is
  in two batches; the files that were there are unchanged and the buffer is
  left empty.
\<close>

theorem buffer_flush_invariant:
  assumes "fs s = Some t" and "state_dir t = Some d"
    and "inj (uuid4_hex e)"
    and "\<forall>n\<ge>uuid_draws s. uuid4_hex e n @ ''.pkl'' \<notin> fst ` set d"
  shows "\<exists>b' s' news. push_then_flush e vals (Buffer_init B) s = Inr (b', s')
     \<and> fs s' = Some (t\<lparr>state_dir := Some (d @ news)\<rparr>)
     \<and> concat (map snd news) = vals
     \<and> sum_list (map (\<lambda>p. length (snd p)) news) = length vals
     \<and> distinct (map fst news)
     \<and> queue b' = [] \<and> counter b' = 0"
proof -
  from push_then_flush_files [OF assms(1,2) Buffer_init_invariant, of e vals B]
  obtain b' s' news where r: "push_then_flush e vals (Buffer_init B) s = Inr (b', s')"
      "fs s' = Some (t\<lparr>state_dir := Some (fold (\<lambda>(n, c). AList.update n c) news d)\<rparr>)"
      "map fst news = map (\<lambda>n. uuid4_hex e n @ ''.pkl'') [uuid_draws s..<uuid_draws s']"
      "concat (map snd news) = queue (Buffer_init B) @ vals"
      "queue b' = []" "counter b' = 0"
    by blast
  have dist: "distinct (map fst news)"
    using pkl_names_distinct [OF assms(3)] by (simp add: r(3))
  have "fst ` set news = set (map fst news)" by simp
  also have "\<dots> = (\<lambda>n. uuid4_hex e n @ ''.pkl'') ` {uuid_draws s..<uuid_draws s'}"
    by (simp add: r(3))
  finally have disj: "fst ` set news \<inter> fst ` set d = {}"
    using assms(4) by auto
  have app: "fold (\<lambda>(n, c). AList.update n c) news d = d @ news"
    using dist disj by (rule fold_update_fresh)
  have all: "concat (map snd news) = vals"
    using r(4) by (simp add: Buffer_init_def)
  have "length (concat (map snd news)) = length vals" by (simp only: all)
  then have cnt: "sum_list (map (\<lambda>p. length (snd p)) news) = length vals"
    by (simp add: length_concat o_def)
  show ?thesis
    apply (intro exI [of _ b'] exI [of _ s'] exI [of _ news])
    using r(1,2,5,6) app all cnt dist by simp
qed

text \<open>
  Claim C9. Flushing a buffer whose counter is zero returns the buffer and the
  world unchanged; flushing twice in a row is the same as flushing once; and in
  an existing \<^verbatim>\<open>STATE\<close> directory the pushes followed by the final manual flush
  succeed and leave a directory in which every file is one that was there
  before or has at least one record, so that no empty checkpoint file is
  created (the final flush writes nothing when an automatic flush has just
  emptied the buffer).
\<close>

theorem flush_empty_idempotent:
  "(counter b = 0 \<longrightarrow> flush e b s = Inr (b, s))
   \<and> (case flush e b s of Inl err \<Rightarrow> Inl err | Inr (b1, s1) \<Rightarrow> flush e b1 s1) = flush e b s
   \<and> (fs s = Some t \<and> state_dir t = Some d \<longrightarrow>
        (\<exists>b' s' t' d'. push_then_flush e vals (Buffer_init B) s = Inr (b', s')
           \<and> fs s' = Some t' \<and> state_dir t' = Some d'
           \<and> (\<forall>f\<in>set d'. f \<in> set d \<or> snd f \<noteq> [])))"
proof (intro conjI impI)
  show "flush e b s = Inr (b, s)" if "counter b = 0"
    using that by (rule flush_empty)
  show "(case flush e b s of Inl err \<Rightarrow> Inl err | Inr (b1, s1) \<Rightarrow> flush e b1 s1) = flush e b s"
    by (auto simp: flush_def split: sum.splits prod.splits)
  show "\<exists>b' s' t' d'. push_then_flush e vals (Buffer_init B) s = Inr (b', s')
           \<and> fs s' = Some t' \<and> state_dir t' = Some d'
           \<and> (\<forall>f\<in>set d'. f \<in> set d \<or> snd f \<noteq> [])"
    if "fs s = Some t \<and> state_dir t = Some d"
  proof -
    from that have dir: "fs s = Some t" "state_dir t = Some d" by simp_all
    from push_then_flush_files [OF dir Buffer_init_invariant, of e vals B]
    obtain b' s' news where r: "push_then_flush e vals (Buffer_init B) s = Inr (b', s')"
      "fs s' = Some (t\<lparr>state_dir := Some (fold (\<lambda>(n, c). AList.update n c) news d)\<rparr>)"
      "[] \<notin> set (map snd news)"
      by blast
    have "\<forall>f\<in>set (fold (\<lambda>(n, c). AList.update n c) news d). f \<in> set d \<or> snd f \<noteq> []"
      using set_fold_update_subset [of news d] r(3) by force
    then show ?thesis
      using r by simp
  qed
qed

text \<open>The example world: the directory exists and the example names are fresh.\<close>

lemma example_uuid_inj: "inj (uuid4_hex example_env)"
  by (simp add: example_env_def inj_on_def)

lemma example_uuid_fresh:
  "uuid4_hex example_env n @ ''.pkl'' \<notin> fst ` set example_state"
  by (simp add: example_env_def example_state_def)

lemma example_dir:
  "fs example_world = Some example_results" "state_dir example_results = Some example_state"
  by (simp_all add: example_world_def example_results_def)

theorem buffer_flush_invariant_witness:
  "fs example_world = Some example_results
   \<and> state_dir example_results = Some example_state
   \<and> inj (uuid4_hex example_env)
   \<and> (\<forall>n. uuid4_hex example_env n @ ''.pkl'' \<notin> fst ` set example_state)
   \<and> (\<exists>b' s' news.
         push_then_flush example_env example_records (Buffer_init 2) example_world = Inr (b', s')
       \<and> fs s' = Some (example_results\<lparr>state_dir := Some (example_state @ news)\<rparr>)
       \<and> concat (map snd news) = example_records
       \<and> sum_list (map (\<lambda>p. length (snd p)) news) = length example_records
       \<and> distinct (map fst news)
       \<and> queue b' = [] \<and> counter b' = 0)"
proof -
  have fresh: "\<forall>n\<ge>uuid_draws example_world.
      uuid4_hex example_env n @ ''.pkl'' \<notin> fst ` set example_state"
    by (simp only: example_uuid_fresh) simp
  have all: "\<forall>n. uuid4_hex example_env n @ ''.pkl'' \<notin> fst ` set example_state"
    by (simp only: example_uuid_fresh) simp
  show ?thesis
    using example_dir example_uuid_inj all
      buffer_flush_invariant [OF example_dir example_uuid_inj fresh, of example_records 2]
    by blast
qed

text \<open>
  The scenario of three records and batch size 2: the automatic flush persists
  two records, the final flush one.
\<close>

lemma push_then_flush_example:
  "push_then_flush example_env example_records (Buffer_init 2) example_world
     = Inr (\<lparr>nbuff = 2, counter = 0, queue = []\<rparr>,
            \<lparr>fs = Some (example_results\<lparr>state_dir := Some (example_state @
                 [(''a.pkl'', [[0, 0, 1, 1, 2, 4], [0, 1 / 2, 1, 1, 2, 4]]),
                  (''aa.pkl'', [[0, 1, 1, 1, 2, 4]])])\<rparr>),
             trace = [Dump ''a.pkl'', Dump ''aa.pkl''],
             uuid_draws = 2, clock_reads = 0, random_draws = 0\<rparr>)"
  by (simp add: push_then_flush_def Buffer_call_def flush_def uuid_pkl_def pickle_dump_def
      Buffer_init_def example_env_def example_world_def example_results_def example_state_def
      example_records_def)

theorem flush_empty_idempotent_witness:
  "counter (Buffer_init 1) = 0
   \<and> fs example_world = Some example_results
   \<and> state_dir example_results = Some example_state
   \<and> flush example_env (Buffer_init 1) example_world = Inr (Buffer_init 1, example_world)
   \<and> (case flush example_env (Buffer_init 1) example_world of
         Inl err \<Rightarrow> Inl err
       | Inr (b1, s1) \<Rightarrow> flush example_env b1 s1)
       = flush example_env (Buffer_init 1) example_world
   \<and> (\<exists>b' s' t' d'.
          push_then_flush example_env example_records (Buffer_init 1) example_world = Inr (b', s')
        \<and> fs s' = Some t' \<and> state_dir t' = Some d'
        \<and> (\<forall>f\<in>set d'. f \<in> set example_state \<or> snd f \<noteq> []))"
proof -
  have c: "counter (Buffer_init 1) = 0" by (simp add: Buffer_init_def)
  show ?thesis
    using c example_dir
      flush_empty_idempotent [of "Buffer_init 1" example_env example_world example_results
        example_state example_records 1]
    by blast
qed

text \<open>
  Batch size 1 and one record: the automatic flush empties the buffer and the
  final flush writes no second file.
\<close>

lemma push_one_then_flush_example:
  "push_then_flush example_env [[0, 0, 1, 1, 2, 4]] (Buffer_init 1) example_world
     = Inr (\<lparr>nbuff = 1, counter = 0, queue = []\<rparr>,
            \<lparr>fs = Some (example_results\<lparr>state_dir := Some (example_state @
                 [(''a.pkl'', [[0, 0, 1, 1, 2, 4]])])\<rparr>),
             trace = [Dump ''a.pkl''],
             uuid_draws = 1, clock_reads = 0, random_draws = 0\<rparr>)"
  by (simp add: push_then_flush_def Buffer_call_def flush_def uuid_pkl_def pickle_dump_def
      Buffer_init_def example_env_def example_world_def example_results_def example_state_def)

section \<open>The resume engine\<close>

lemma load_completed_files:
  assumes "fs s = Some t" and "state_dir t = Some d" and "set names \<subseteq> fst ` set d"
  shows "\<exists>s'. load_completed names acc s
        = Inr (acc @ concat (map (\<lambda>f. map (take 2) (the (map_of d f))) names), s')
     \<and> fs s' = fs s
     \<and> trace s' = trace s @ map Load names
     \<and> uuid_draws s' = uuid_draws s \<and> clock_reads s' = clock_reads s
     \<and> random_draws s' = random_draws s"
  using assms
proof (induction names arbitrary: acc s)
  case Nil
  then show ?case by simp
next
  case (Cons f names)
  from Cons.prems(3) have "f \<in> fst ` set d" by simp
  then obtain content where c: "map_of d f = Some content"
    by (metis domD dom_map_of_conv_image_fst)
  let ?s1 = "s\<lparr>trace := trace s @ [Load f]\<rparr>"
  have load: "pickle_load f s = Inr (content, ?s1)"
    using Cons.prems(1,2) c by (simp add: pickle_load_def)
  have "\<exists>s'. load_completed names (acc @ map (take 2) content) ?s1
        = Inr ((acc @ map (take 2) content)
                 @ concat (map (\<lambda>f. map (take 2) (the (map_of d f))) names), s')
     \<and> fs s' = fs ?s1
     \<and> trace s' = trace ?s1 @ map Load names
     \<and> uuid_draws s' = uuid_draws ?s1 \<and> clock_reads s' = clock_reads ?s1
     \<and> random_draws s' = random_draws ?s1"
    using Cons.prems by (intro Cons.IH) simp_all
  then show ?case using load c by auto
qed

lemma set_list_of_set_difference:
  "set (list_of_set_difference r assigned completed)
     = {j \<in> set assigned. tuple_of j \<notin> set completed}"
  by (auto simp: list_of_set_difference_def)

lemma distinct_list_of_set_difference:
  "distinct (list_of_set_difference r assigned completed)"
  by (simp add: list_of_set_difference_def)

lemma mset_list_of_set_difference:
  "distinct assigned \<Longrightarrow>
   mset (list_of_set_difference r assigned completed)
     = filter_mset (\<lambda>j. tuple_of j \<notin> set completed) (mset assigned)"
  by (simp add: list_of_set_difference_def distinct_remdups_id)

lemma length_list_of_set_difference:
  "length (list_of_set_difference r assigned completed)
     = card {j \<in> set assigned. tuple_of j \<notin> set completed}"
proof -
  have "length (list_of_set_difference r assigned completed)
      = card (set (list_of_set_difference r assigned completed))"
    by (simp add: distinct_card distinct_list_of_set_difference)
  then show ?thesis by (simp only: set_list_of_set_difference)
qed

text \<open>The keys read from a directory: the first two fields of every record of every file.\<close>

lemma completed_keys:
  "k \<in> set (concat (map (\<lambda>f. map (take 2) (snd f)) d))
     \<longleftrightarrow> (\<exists>f\<in>set d. \<exists>ll\<in>set (snd f). take 2 ll = k)"
  by (induction d) auto

lemma keys_of_listing:
  assumes "distinct (map fst d)"
  shows "map (\<lambda>f. map (take 2) (the (map_of d (fst f)))) d = map (\<lambda>f. map (take 2) (snd f)) d"
proof (rule map_cong [OF refl])
  fix f assume "f \<in> set d"
  then have "map_of d (fst f) = Some (snd f)"
    using assms by (simp add: map_of_eq_Some_iff)
  then show "map (take 2) (the (map_of d (fst f))) = map (take 2) (snd f)" by simp
qed

lemma find_remaining_jobs_present:
  assumes "fs s = Some t" and "state_dir t = Some d" and "distinct (map fst d)"
  shows "\<exists>s'. find_remaining_jobs e self s
       = Inr (self\<lparr>jobs := list_of_set_difference (set_rank e) (jobs self)
                (concat (map (\<lambda>f. map (take 2) (snd f)) d))\<rparr>, s')
     \<and> fs s' = fs s
     \<and> trace s' = trace s @ ListDir # map Load (map fst d)
     \<and> uuid_draws s' = uuid_draws s \<and> clock_reads s' = clock_reads s
     \<and> random_draws s' = random_draws s"
proof -
  let ?s1 = "s\<lparr>trace := trace s @ [ListDir]\<rparr>"
  have names: "listdir_fullpath (fs s) = map fst d"
    using assms(1,2) by (simp add: listdir_fullpath_def)
  have "fs ?s1 = Some t" using assms(1) by simp
  from load_completed_files [OF this assms(2), of "map fst d" "[]"]
  obtain s' where l: "load_completed (map fst d) [] ?s1
      = Inr ([] @ concat (map (\<lambda>f. map (take 2) (the (map_of d f))) (map fst d)), s')"
    "fs s' = fs ?s1" "trace s' = trace ?s1 @ map Load (map fst d)"
    "uuid_draws s' = uuid_draws ?s1" "clock_reads s' = clock_reads ?s1"
    "random_draws s' = random_draws ?s1"
    by auto
  show ?thesis
    using l names by (simp add: find_remaining_jobs_def Let_def comp_def keys_of_listing [OF assms(3)])
qed

lemma find_remaining_jobs_absent:
  assumes "listdir_fullpath (fs s) = []"
  shows "find_remaining_jobs e self s
       = Inr (self\<lparr>jobs := list_of_set_difference (set_rank e) (jobs self) []\<rparr>,
              s\<lparr>trace := trace s @ [ListDir]\<rparr>)"
  using assms by (simp add: find_remaining_jobs_def)

text \<open>
  Claim C3. For every assigned job list and every \<^verbatim>\<open>STATE\<close> directory on disk
  (its file names distinct), \<^verbatim>\<open>find_remaining_jobs\<close> succeeds and leaves in
  \<^verbatim>\<open>self.jobs\<close> exactly the set difference of the assigned jobs and the completed
  ones, a job \<open>(k, w)\<close> being completed if and only if the first two fields of
  some record of some checkpoint file are \<open>k\<close> and \<open>w\<close>. The remainder lists
  every such job once; nothing is said about its order. No other attribute of
  the executor and nothing on disk changes.
\<close>

theorem find_remaining_jobs_difference:
  assumes "fs s = Some t" and "state_dir t = Some d" and "distinct (map fst d)"
  shows "\<exists>self' s'. find_remaining_jobs e self s = Inr (self', s')
     \<and> set (jobs self')
         = set (jobs self)
           - {j. \<exists>f\<in>set d. \<exists>ll\<in>set (snd f). take 2 ll = [fst j, snd j]}
     \<and> distinct (jobs self')
     \<and> self' = self\<lparr>jobs := jobs self'\<rparr>
     \<and> fs s' = fs s"
proof -
  let ?completed = "concat (map (\<lambda>f. map (take 2) (snd f)) d)"
  let ?rest = "list_of_set_difference (set_rank e) (jobs self) ?completed"
  from find_remaining_jobs_present [OF assms, of e self]
  obtain s' where r: "find_remaining_jobs e self s = Inr (self\<lparr>jobs := ?rest\<rparr>, s')"
    "fs s' = fs s"
    by blast
  have mem: "tuple_of j \<in> set ?completed
      \<longleftrightarrow> (\<exists>f\<in>set d. \<exists>ll\<in>set (snd f). take 2 ll = [fst j, snd j])" for j
    unfolding tuple_of_def by (rule completed_keys)
  have "set ?rest = {j \<in> set (jobs self). tuple_of j \<notin> set ?completed}"
    by (rule set_list_of_set_difference)
  also have "\<dots> = set (jobs self)
      - {j. \<exists>f\<in>set d. \<exists>ll\<in>set (snd f). take 2 ll = [fst j, snd j]}"
    using mem by blast
  finally have s: "set ?rest = set (jobs self)
      - {j. \<exists>f\<in>set d. \<exists>ll\<in>set (snd f). take 2 ll = [fst j, snd j]}" .
  show ?thesis
    apply (intro exI [of _ "self\<lparr>jobs := ?rest\<rparr>"] exI [of _ s'])
    using r s by (simp add: distinct_list_of_set_difference)
qed

text \<open>
  Claim C4, amended. When the \<^verbatim>\<open>STATE\<close> directory of the job group is absent,
  \<^verbatim>\<open>find_remaining_jobs\<close> raises no error and treats this as zero completed
  work: \<^verbatim>\<open>self.jobs\<close> becomes a list without duplicates of exactly the assigned
  jobs, in an unspecified order; it is a permutation of the assigned list when
  that list has no duplicate. Nothing on disk changes.
\<close>

theorem find_remaining_jobs_missing_directory:
  assumes "fs s = None \<or> (\<exists>t. fs s = Some t \<and> state_dir t = None)"
  shows "\<exists>self' s'. find_remaining_jobs e self s = Inr (self', s')
     \<and> set (jobs self') = set (jobs self)
     \<and> distinct (jobs self')
     \<and> (distinct (jobs self) \<longrightarrow> mset (jobs self') = mset (jobs self))
     \<and> self' = self\<lparr>jobs := jobs self'\<rparr>
     \<and> fs s' = fs s"
proof -
  have "listdir_fullpath (fs s) = []"
    using assms by (auto simp: listdir_fullpath_def)
  then have r: "find_remaining_jobs e self s
       = Inr (self\<lparr>jobs := list_of_set_difference (set_rank e) (jobs self) []\<rparr>,
              s\<lparr>trace := trace s @ [ListDir]\<rparr>)"
    by (rule find_remaining_jobs_absent)
  show ?thesis
    apply (intro exI [of _ "self\<lparr>jobs := list_of_set_difference (set_rank e) (jobs self) []\<rparr>"]
                 exI [of _ "s\<lparr>trace := trace s @ [ListDir]\<rparr>"])
    using r
    by (simp add: set_list_of_set_difference distinct_list_of_set_difference
        mset_list_of_set_difference)
qed

lemma example_state_distinct: "distinct (map fst example_state)"
  by (simp add: example_state_def)

theorem find_remaining_jobs_difference_witness:
  "fs example_world = Some example_results
   \<and> state_dir example_results = Some example_state
   \<and> distinct (map fst example_state)
   \<and> (\<exists>self' s'.
         find_remaining_jobs example_env (example_executor\<lparr>jobs := example_jobs\<rparr>) example_world
           = Inr (self', s')
       \<and> set (jobs self') = {(0, 1), (1, 0)}
       \<and> distinct (jobs self')
       \<and> self' = example_executor\<lparr>jobs := jobs self'\<rparr>
       \<and> fs s' = fs example_world)"
proof -
  let ?ex = "example_executor\<lparr>jobs := example_jobs\<rparr>"
  have "set (jobs ?ex) - {j. \<exists>f\<in>set example_state. \<exists>ll\<in>set (snd f). take 2 ll = [fst j, snd j]}
      = {(0, 1), (1, 0)}"
    by (auto simp: example_jobs_def example_state_def)
  then show ?thesis
    using example_dir example_state_distinct
      find_remaining_jobs_difference [OF example_dir example_state_distinct, of example_env ?ex]
    by simp
qed

lemma find_remaining_jobs_example:
  "find_remaining_jobs example_env (example_executor\<lparr>jobs := example_jobs\<rparr>) example_world
     = Inr (example_executor\<lparr>jobs := [(0, 1), (1, 0)]\<rparr>,
            example_world\<lparr>trace := [ListDir, Load ''old.pkl'']\<rparr>)"
  by (simp add: find_remaining_jobs_def listdir_fullpath_def pickle_load_def
      list_of_set_difference_def tuple_of_def example_env_def example_world_def
      example_results_def example_state_def example_jobs_def)

text \<open>
  With the \<^verbatim>\<open>STATE\<close> directory absent and the point \<open>(0, 0)\<close> assigned twice (the
  grids \<open>k = [0, 0]\<close>, \<open>w = [0]\<close> on one worker), the remaining list has one
  job: it is not the assigned list.
\<close>

theorem find_remaining_jobs_unchanged_counterexample:
  "find_remaining_jobs example_env (example_executor\<lparr>jobs := [(0, 0), (0, 0)]\<rparr>)
       example_absent_world
     = Inr (example_executor\<lparr>jobs := [(0, 0)]\<rparr>, example_absent_world\<lparr>trace := [ListDir]\<rparr>)
   \<and> jobs (example_executor\<lparr>jobs := [(0, 0)]\<rparr>)
       \<noteq> jobs (example_executor\<lparr>jobs := [(0, 0), (0, 0)]\<rparr>)"
  by (simp add: find_remaining_jobs_def listdir_fullpath_def
      list_of_set_difference_def tuple_of_def example_env_def example_absent_world_def
      example_world_def example_results_def)

theorem find_remaining_jobs_missing_directory_witness:
  "(fs example_absent_world = None
      \<or> (\<exists>t. fs example_absent_world = Some t \<and> state_dir t = None))
   \<and> (\<exists>self' s'.
         find_remaining_jobs example_env (example_executor\<lparr>jobs := example_jobs\<rparr>)
           example_absent_world = Inr (self', s')
       \<and> set (jobs self') = set example_jobs
       \<and> distinct (jobs self')
       \<and> mset (jobs self') = mset example_jobs
       \<and> self' = example_executor\<lparr>jobs := jobs self'\<rparr>
       \<and> fs s' = fs example_absent_world)"
proof -
  let ?ex = "example_executor\<lparr>jobs := example_jobs\<rparr>"
  have h: "fs example_absent_world = None
      \<or> (\<exists>t. fs example_absent_world = Some t \<and> state_dir t = None)"
    by (simp add: example_absent_world_def)
  have d: "distinct (jobs ?ex)" by (simp add: example_jobs_def)
  show ?thesis
    using h d find_remaining_jobs_missing_directory [OF h, of example_env ?ex]
    by simp
qed

section \<open>The executor\<close>

text \<open>
  Claim C5. When the \<^verbatim>\<open>DONE\<close> file of the job group exists at entry,
  \<^verbatim>\<open>calculate\<close> returns at once with the elapsed time \<open>0.0\<close>. Its only effect
  is one warning handed to the logger: the trace gains no solver call (no grid
  point is computed) and no listing, read or write of \<^verbatim>\<open>STATE\<close>, and the file
  system, the executor and the counters of the world are returned as they
  were.
\<close>

theorem calculate_done_marker:
  assumes "done_file_exists (fs s)"
  shows "calculate e module_dry_run self k_grid w_grid s
       = Inr (0, self,
              s\<lparr>trace := trace s @ [Log WARNING (rank (logger self)) (DoneFileExists (cfg self))]\<rparr>)"
  using assms by (simp add: calculate_def logger_warning_def emit_def)

theorem calculate_done_marker_witness:
  "done_file_exists (fs example_done_world)
   \<and> calculate example_env False example_executor [0, 1] [0, 1 / 2, 1] example_done_world
       = Inr (0, example_executor,
              example_done_world\<lparr>trace := [Log WARNING 1 (DoneFileExists ''config_a'')]\<rparr>)"
proof -
  have h: "done_file_exists (fs example_done_world)"
    by (simp add: done_file_exists_def example_done_world_def example_world_def)
  have "rank (logger example_executor) = 1" "cfg example_executor = ''config_a''"
    by (simp_all add: example_executor_def Executor_init_def RankTools_init_def)
  moreover have "trace example_done_world = []"
    by (simp add: example_done_world_def example_world_def)
  ultimately show ?thesis
    using h calculate_done_marker [OF h, of example_env False example_executor "[0, 1]" "[0, 1 / 2, 1]"]
    by simp
qed

text \<open>
  Claim C10. \<^verbatim>\<open>save_final\<close> on a rank other than 0 returns silently with the
  world, and so the file system, unchanged; on rank 0, in an existing results
  directory, it writes the array to \<^verbatim>\<open>res.npy\<close>. Hence among the \<open>W \<ge> 1\<close>
  workers of a group calling it on the same world, rank 0 is the only one for
  which the call changes anything: the result is persisted exactly once.
\<close>

theorem save_final_rank:
  "(RANK self \<noteq> 0 \<longrightarrow> save_final self arr s = Inr s)
   \<and> (RANK self = 0 \<and> fs s = Some t \<longrightarrow>
        save_final self arr s
          = Inr (s\<lparr>fs := Some (t\<lparr>res_npy := Some arr\<rparr>), trace := trace s @ [SaveRes]\<rparr>))
   \<and> (1 \<le> W \<and> fs s = Some t \<longrightarrow>
        filter (\<lambda>r. save_final (self\<lparr>RANK := r\<rparr>) arr s \<noteq> Inr s) [0..<W] = [0])"
proof (intro conjI impI)
  show "save_final self arr s = Inr s" if "RANK self \<noteq> 0"
    using that by (simp add: save_final_def)
  show "save_final self arr s
          = Inr (s\<lparr>fs := Some (t\<lparr>res_npy := Some arr\<rparr>), trace := trace s @ [SaveRes]\<rparr>)"
    if "RANK self = 0 \<and> fs s = Some t"
    using that by (simp add: save_final_def)
  show "filter (\<lambda>r. save_final (self\<lparr>RANK := r\<rparr>) arr s \<noteq> Inr s) [0..<W] = [0]"
    if h: "1 \<le> W \<and> fs s = Some t"
  proof -
    have changed: "s\<lparr>fs := Some (t\<lparr>res_npy := Some arr\<rparr>), trace := trace s @ [SaveRes]\<rparr> \<noteq> s"
    proof
      assume "s\<lparr>fs := Some (t\<lparr>res_npy := Some arr\<rparr>), trace := trace s @ [SaveRes]\<rparr> = s"
      then have "trace (s\<lparr>fs := Some (t\<lparr>res_npy := Some arr\<rparr>), trace := trace s @ [SaveRes]\<rparr>)
          = trace s"
        by (simp only:)
      then show False by simp
    qed
    have iff: "save_final (self\<lparr>RANK := r\<rparr>) arr s \<noteq> Inr s \<longleftrightarrow> r = 0" for r
      using h changed by (simp add: save_final_def)
    have "[0..<W] = 0 # [1..<W]" using h by (simp add: upt_conv_Cons)
    then show ?thesis by (simp add: iff)
  qed
qed


theorem save_final_rank_witness:
  "RANK example_executor \<noteq> 0
   \<and> save_final example_executor [[0, 0, 1, 1, 2, 4]] example_world = Inr example_world
   \<and> RANK example_single_executor = 0
   \<and> fs example_world = Some example_results
   \<and> save_final example_single_executor [[0, 0, 1, 1, 2, 4]] example_world
       = Inr (example_world\<lparr>fs := Some (example_results\<lparr>res_npy := Some [[0, 0, 1, 1, 2, 4]]\<rparr>),
                trace := trace example_world @ [SaveRes]\<rparr>)
   \<and> (1::nat) \<le> 3
   \<and> filter (\<lambda>r. save_final (example_executor\<lparr>RANK := r\<rparr>) [[0, 0, 1, 1, 2, 4]] example_world
                 \<noteq> Inr example_world) [0..<3] = [0]"
proof -
  have r1: "RANK example_executor \<noteq> 0"
    by (simp add: example_executor_def Executor_init_def RankTools_init_def)
  have r0: "RANK example_single_executor = 0"
    by (simp add: example_single_executor_def Executor_init_def RankTools_init_def)
  have three: "(1::nat) \<le> 3" by simp
  show ?thesis
    using r1 r0 three example_dir(1)
      save_final_rank [of example_executor "[[0, 0, 1, 1, 2, 4]]" example_world example_results 3]
      save_final_rank [of example_single_executor "[[0, 0, 1, 1, 2, 4]]" example_world
        example_results 3]
    by blast
qed

lemma spectral_amplitude_Complex: "spectral_amplitude (Complex a b) = - b / pi"
  by (simp add: spectral_amplitude_def)

lemma spectral_amplitude_negative: "spectral_amplitude G < 0 \<longleftrightarrow> 0 < Im G"
  by (simp add: spectral_amplitude_def zero_less_divide_iff)

lemma Buffer_call_succeeds:
  assumes "fs s = Some t" and "state_dir t = Some d"
  shows "\<exists>b' s'. Buffer_call e val b s = Inr (b', s')"
  using assms by (simp add: Buffer_call_def flush_def uuid_pkl_def pickle_dump_def Let_def)

text \<open>
  Claim C6. In an iteration of the main loop outside dry-run mode, for a solver
  response \<open>G = a + b i\<close> (with the two metadata lists that the loop reads
  non-empty), the amplitude is \<open>- b / pi\<close>. Whatever its sign, the iteration
  ends by pushing the record \<open>[k, w, a, b, tcomp, largest_mat_dim]\<close> to the
  buffer, in a world that differs from the one at entry only by the trace; the
  trace holds the error \<^verbatim>\<open>Negative spectral weight\<close> exactly when the amplitude
  is negative. The iteration raises no error of its own: where the \<^verbatim>\<open>STATE\<close>
  directory exists it returns normally.
\<close>

theorem calculate_point_amplitude:
  assumes "\<not> module_dry_run" and "sy = Some system"
    and "sy_solve e system (k * pi) w (solver self) = Inr (Complex a b, m)"
    and "meta_time m \<noteq> []" and "meta_inv m = d # ds"
  shows "spectral_amplitude (Complex a b) = - b / pi
     \<and> (fs s = Some t \<and> state_dir t = Some dir \<longrightarrow>
          (\<exists>buf' s'. calculate_point e module_dry_run self sy print_every L cc (k, w) buf s
             = Inr (buf', s')))
     \<and> (\<exists>s1. calculate_point e module_dry_run self sy print_every L cc (k, w) buf s
             = Buffer_call e [k, w, a, b, last (meta_time m) / 60, real_of_int d] buf s1
         \<and> fs s1 = fs s
         \<and> uuid_draws s1 = uuid_draws s
         \<and> trace s1 = trace s
             @ [SolveCall (k * pi) w (solver self)]
             @ (if debug_flag (logger self)
                then [Log DEBUG (rank (logger self))
                        (Solved k w (- b / pi) (last (meta_time m) / 60))]
                else [])
             @ (if - b / pi < 0
                then [Log ERROR (rank (logger self)) (NegativeSpectralWeight (- b / pi))]
                else [])
             @ (if (cc mod print_every = 0 \<or> cc = 0) \<and> RANK self = 0
                then [Log INFO (rank (logger self)) (Progress cc L (last (meta_time m) / 60))]
                else [])
             @ (if RANK self = 0 \<and> cc = 0
                then [Log INFO (rank (logger self))
                        (LargestMatrixSize (real_of_int (d ^ 2) * 16 / 1000000000))]
                else []))"
proof -
  let ?A = "- b / pi" and ?tcomp = "last (meta_time m) / 60"
  define s1 where "s1 = s\<lparr>trace := trace s
             @ [SolveCall (k * pi) w (solver self)]
             @ (if debug_flag (logger self)
                then [Log DEBUG (rank (logger self)) (Solved k w ?A ?tcomp)]
                else [])
             @ (if ?A < 0
                then [Log ERROR (rank (logger self)) (NegativeSpectralWeight ?A)]
                else [])
             @ (if (cc mod print_every = 0 \<or> cc = 0) \<and> RANK self = 0
                then [Log INFO (rank (logger self)) (Progress cc L ?tcomp)]
                else [])
             @ (if RANK self = 0 \<and> cc = 0
                then [Log INFO (rank (logger self))
                        (LargestMatrixSize (real_of_int (d ^ 2) * 16 / 1000000000))]
                else [])\<rparr>"
  have amp: "spectral_amplitude (Complex a b) = ?A"
    by (simp add: spectral_amplitude_def)
  have run: "calculate_point e module_dry_run self sy print_every L cc (k, w) buf s
      = Buffer_call e [k, w, a, b, ?tcomp, real_of_int d] buf s1"
    using assms
    by (simp add: calculate_point_def solve_point_def amp Let_def s1_def
        logger_debug_def logger_error_def logger_info_def emit_def)
  have ok: "\<exists>buf' s'. calculate_point e module_dry_run self sy print_every L cc (k, w) buf s
             = Inr (buf', s')" if "fs s = Some t \<and> state_dir t = Some dir"
  proof -
    from that have "fs s1 = Some t" "state_dir t = Some dir" by (simp_all add: s1_def)
    then show ?thesis unfolding run by (rule Buffer_call_succeeds)
  qed
  show ?thesis
    apply (intro conjI impI exI [of _ s1])
    using amp run ok by (simp_all add: s1_def)
qed



theorem calculate_point_amplitude_witness:
  "\<not> False
   \<and> Some () = Some ()
   \<and> sy_solve example_env () (1 * pi) (1 / 2) (solver example_single_executor)
       = Inr (Complex (1 / 2) 1, \<lparr>meta_time = [30, 120], meta_inv = [4, 2]\<rparr>)
   \<and> meta_time \<lparr>meta_time = [30, 120], meta_inv = [4, 2]\<rparr> \<noteq> []
   \<and> meta_inv \<lparr>meta_time = [30, 120], meta_inv = [4, 2]\<rparr> = 4 # [2]
   \<and> fs example_world = Some example_results
   \<and> state_dir example_results = Some example_state
   \<and> spectral_amplitude (Complex (1 / 2) 1) = - 1 / pi
   \<and> (\<exists>buf' s'. calculate_point example_env False example_single_executor (Some ()) 1 1 0
         (1, 1 / 2) (Buffer_init 1) example_world = Inr (buf', s'))
   \<and> (\<exists>s1. calculate_point example_env False example_single_executor (Some ()) 1 1 0
         (1, 1 / 2) (Buffer_init 1) example_world
           = Buffer_call example_env [1, 1 / 2, 1 / 2, 1, 2, 4] (Buffer_init 1) s1
       \<and> fs s1 = fs example_world
       \<and> trace s1 =
           [SolveCall (1 * pi) (1 / 2) 0,
            Log ERROR 0 (NegativeSpectralWeight (- 1 / pi)),
            Log INFO 0 (Progress 0 1 2),
            Log INFO 0 (LargestMatrixSize (16 * 16 / 1000000000))])"
proof -
  let ?m = "\<lparr>meta_time = [30, 120], meta_inv = [4, 2]\<rparr>"
  have h1: "\<not> False" by simp
  have h2: "Some () = Some ()" by simp
  have h3: "sy_solve example_env () (1 * pi) (1 / 2) (solver example_single_executor)
       = Inr (Complex (1 / 2) 1, ?m)"
    by (simp add: example_env_def)
  have h4: "meta_time ?m \<noteq> []" by simp
  have h5: "meta_inv ?m = 4 # [2]" by simp
  have ex: "debug_flag (logger example_single_executor) = False"
    "rank (logger example_single_executor) = 0" "RANK example_single_executor = 0"
    "solver example_single_executor = 0"
    by (simp_all add: example_single_executor_def Executor_init_def RankTools_init_def)
  have tr: "trace example_world = []" by (simp add: example_world_def)
  have neg: "- 1 / pi < 0" by simp
  show ?thesis
    using h3 example_dir
      calculate_point_amplitude [OF h1 h2 h3 h4 h5, of example_world example_results
        example_state 1 1 0 "Buffer_init 1"]
    by (simp add: ex tr) blast
qed

section \<open>The collective calls of the driver\<close>

text \<open>The collective calls of one iteration do not depend on the rank.\<close>

lemma collectives_config_steps:
  "collectives (config_steps r L i c)
     = [Gather, Barrier, Scatter, Gather, Barrier, Barrier, Barrier]"
  by (simp add: config_steps_def collectives_def List.map_filter_simps)

lemma collectives_append: "collectives (xs @ ys) = collectives xs @ collectives ys"
  by (simp add: collectives_def List.map_filter_def)

lemma collectives_concat: "collectives (concat xss) = concat (map collectives xss)"
  by (induction xss) (simp_all add: collectives_append, simp add: collectives_def List.map_filter_simps)

text \<open>
  With configurations to run, every rank issues the same collective calls, none
  of them an abort: the group moves through the phases in step.
\<close>

lemma main_nonempty_collectives:
  assumes "all_configs_paths \<noteq> []"
  shows "collectives (main_steps r all_configs_paths)
       = [Bcast, Bcast, Bcast]
         @ concat (map (\<lambda>c. [Gather, Barrier, Scatter, Gather, Barrier, Barrier, Barrier])
                     all_configs_paths)
         @ [Barrier]"
proof -
  let ?body = "concat (map (\<lambda>(config_index, config_path).
                  config_steps r (length all_configs_paths) config_index config_path)
                (enumerate 0 all_configs_paths))"
  let ?tail = "[Collective Barrier] @ (if r = 0 then [Sleep, Say INFO r AllDone] else [])"
  have each: "map (\<lambda>x. collectives (case x of (i, c) \<Rightarrow> config_steps r L i c)) (enumerate n cs)
      = map (\<lambda>c. [Gather, Barrier, Scatter, Gather, Barrier, Barrier, Barrier]) cs" for L n cs
    by (induction cs arbitrary: n) (simp_all add: collectives_config_steps)
  have ms: "main_steps r all_configs_paths
      = [Collective Bcast, Collective Bcast, Collective Bcast] @ ?body @ ?tail"
    using assms by (simp add: main_steps_def)
  have head: "collectives [Collective Bcast, Collective Bcast, Collective Bcast]
      = [Bcast, Bcast, Bcast]"
    by (simp add: collectives_def List.map_filter_simps)
  have body: "collectives ?body
      = concat (map (\<lambda>c. [Gather, Barrier, Scatter, Gather, Barrier, Barrier, Barrier])
                  all_configs_paths)"
    by (simp only: collectives_concat map_map comp_def each)
  show ?thesis
    by (simp only: ms collectives_append head body)
      (simp add: collectives_def List.map_filter_simps)
qed

lemma main_empty_steps:
  "main_steps r []
     = [Collective Bcast, Collective Bcast, Collective Bcast]
       @ (if r = 0 then [Say WARNING r NoConfigsToRun] else [])
       @ [Collective Abort, Collective Barrier]
       @ (if r = 0 then [Sleep, Say INFO r AllDone] else [])"
  by (simp add: main_steps_def)

lemma main_empty_collectives:
  "collectives (main_steps r []) = [Bcast, Bcast, Bcast, Abort, Barrier]"
  by (simp add: main_empty_steps collectives_def List.map_filter_simps)

lemma main_collectives_rank_independent:
  "collectives (main_steps r all_configs_paths) = collectives (main_steps r' all_configs_paths)"
proof (cases "all_configs_paths = []")
  case True
  then show ?thesis by (simp only: main_empty_collectives)
next
  case False
  then show ?thesis
    by (simp only: main_nonempty_collectives [OF False, of r]
        main_nonempty_collectives [OF False, of r'])
qed

lemma main_abort_iff_empty:
  "Abort \<in> set (collectives (main_steps r all_configs_paths)) \<longleftrightarrow> all_configs_paths = []"
proof (cases "all_configs_paths = []")
  case True
  then show ?thesis by (simp add: main_empty_collectives)
next
  case False
  then show ?thesis by (auto simp: main_nonempty_collectives)
qed

text \<open>
  Claim C7. When the broadcast list of configurations is empty, the process of
  every rank \<open>r\<close>, after the three broadcasts, calls \<^verbatim>\<open>COMM.Abort()\<close>: the call
  is guarded by the emptiness of the list alone, never by the rank, and is
  preceded by a warning logged on rank 0 only. No rank returns on its own
  instead. The collective calls that a process issues are the same on every
  rank, for the empty list (the broadcasts, the abort, and the closing barrier
  that the code goes on to if the abort returns) as for every other list, so
  no collective call is reached by some ranks of the group and not by the
  others; and the abort is called exactly when the list is empty.
\<close>

theorem main_empty_abort:
  "main_steps r []
     = [Collective Bcast, Collective Bcast, Collective Bcast]
       @ (if r = 0 then [Say WARNING r NoConfigsToRun] else [])
       @ [Collective Abort, Collective Barrier]
       @ (if r = 0 then [Sleep, Say INFO r AllDone] else [])
   \<and> collectives (main_steps r []) = [Bcast, Bcast, Bcast, Abort, Barrier]
   \<and> collectives (main_steps r all_configs_paths)
       = collectives (main_steps r' all_configs_paths)
   \<and> (Abort \<in> set (collectives (main_steps r all_configs_paths))
        \<longleftrightarrow> all_configs_paths = [])"
  using main_empty_steps [of r] main_empty_collectives [of r]
    main_collectives_rank_independent [of r all_configs_paths r']
    main_abort_iff_empty [of r all_configs_paths]
  by blast

section \<open>The batch size\<close>

lemma buffer_size_jobs:
  "buffer_size (self\<lparr>jobs := js\<rparr>)
     = (if 0 < cfg_nbuff self then cfg_nbuff self else max (int (length js) div 100) 1)"
  by (simp add: buffer_size_def)

text \<open>The preparation of \<^verbatim>\<open>calculate\<close> when it reaches the resume engine.\<close>

lemma calculate_prepare_resume:
  assumes "load_params e (cfg self) = Inr inp" and "RANK self < SIZE self"
    and "chunk_jobs self (List.product k_grid w_grid) ! RANK self = assigned"
    and "assigned \<noteq> []"
    and "fs s = Some t" and "state_dir t = Some d" and "distinct (map fst d)"
    and "rest = list_of_set_difference (set_rank e) assigned
                  (concat (map (\<lambda>f. map (take 2) (snd f)) d))"
  shows "\<exists>s1. calculate_prepare e self k_grid w_grid s
       = Inr (Inr (inp, self\<lparr>jobs := rest\<rparr>,
                   Buffer_init (if 0 < cfg_nbuff self then cfg_nbuff self
                                else max (int (length rest) div 100) 1), s1))
     \<and> fs s1 = fs s"
proof -
  let ?self1 = "self\<lparr>jobs := assigned\<rparr>"
  have prep: "prep_jobs self k_grid w_grid = Inr ?self1"
    using assms(2,3) by (simp add: prep_jobs_chunk)
  from find_remaining_jobs_present [OF assms(5,6,7), of e ?self1]
  obtain s1 where r: "find_remaining_jobs e ?self1 s = Inr (?self1\<lparr>jobs := rest\<rparr>, s1)"
    "fs s1 = fs s"
    using assms(8) by auto
  have "calculate_prepare e self k_grid w_grid s
       = Inr (Inr (inp, self\<lparr>jobs := rest\<rparr>, Buffer_init (buffer_size (self\<lparr>jobs := rest\<rparr>)), s1))"
    using assms(1,4) prep r(1) by (simp add: calculate_prepare_def)
  then show ?thesis using r(2) by (simp add: buffer_size_jobs)
qed

text \<open>
  Claim C8, amended. When \<^verbatim>\<open>calculate\<close> reaches the construction of the buffer
  (parameters loaded, a non-empty list assigned, \<^verbatim>\<open>STATE\<close> present), a positive
  configured batch size is used unchanged, and a non-positive one is replaced
  by \<open>max (n div 100) 1\<close>, where \<open>n\<close> is the length of \<^verbatim>\<open>self.jobs\<close> at that
  point: the number of jobs that remain after the resume engine has removed
  the completed ones, not the number of jobs assigned to the worker.
\<close>

theorem calculate_prepare_batch_size:
  assumes "load_params e (cfg self) = Inr inp" and "RANK self < SIZE self"
    and "chunk_jobs self (List.product k_grid w_grid) ! RANK self = assigned"
    and "assigned \<noteq> []"
    and "fs s = Some t" and "state_dir t = Some d" and "distinct (map fst d)"
  shows "\<exists>self2 b s1. calculate_prepare e self k_grid w_grid s = Inr (Inr (inp, self2, b, s1))
     \<and> set (jobs self2)
         = set assigned - {j. \<exists>f\<in>set d. \<exists>ll\<in>set (snd f). take 2 ll = [fst j, snd j]}
     \<and> distinct (jobs self2)
     \<and> nbuff b = (if 0 < cfg_nbuff self then cfg_nbuff self
                  else max (int (length (jobs self2)) div 100) 1)
     \<and> counter b = 0 \<and> queue b = []"
proof -
  let ?completed = "concat (map (\<lambda>f. map (take 2) (snd f)) d)"
  let ?rest = "list_of_set_difference (set_rank e) assigned ?completed"
  from calculate_prepare_resume [OF assms refl]
  obtain s1 where r: "calculate_prepare e self k_grid w_grid s
       = Inr (Inr (inp, self\<lparr>jobs := ?rest\<rparr>,
                   Buffer_init (if 0 < cfg_nbuff self then cfg_nbuff self
                                else max (int (length ?rest) div 100) 1), s1))"
    by blast
  have mem: "tuple_of j \<in> set ?completed
      \<longleftrightarrow> (\<exists>f\<in>set d. \<exists>ll\<in>set (snd f). take 2 ll = [fst j, snd j])" for j
    unfolding tuple_of_def by (rule completed_keys)
  have "set ?rest = {j \<in> set assigned. tuple_of j \<notin> set ?completed}"
    by (rule set_list_of_set_difference)
  also have "\<dots> = set assigned
      - {j. \<exists>f\<in>set d. \<exists>ll\<in>set (snd f). take 2 ll = [fst j, snd j]}"
    using mem by blast
  finally have s: "set ?rest = set assigned
      - {j. \<exists>f\<in>set d. \<exists>ll\<in>set (snd f). take 2 ll = [fst j, snd j]}" .
  show ?thesis
    apply (intro exI [of _ "self\<lparr>jobs := ?rest\<rparr>"]
        exI [of _ "Buffer_init (if 0 < cfg_nbuff self then cfg_nbuff self
                                else max (int (length ?rest) div 100) 1)"]
        exI [of _ s1])
    using r s by (simp add: distinct_list_of_set_difference Buffer_init_def)
qed

text \<open>With one worker the only chunk is the whole list.\<close>

lemma chunk_jobs_single:
  assumes "SIZE self = 1"
  shows "chunk_jobs self js ! 0 = js"
proof -
  have "chunk_jobs self js ! 0 = map ((!) js) (filter (\<lambda>j. j mod SIZE self = 0) [0..<length js])"
    using assms by (intro chunk_jobs_nth) simp
  also have "\<dots> = map ((!) js) [0..<length js]" using assms by simp
  also have "\<dots> = js" by (rule map_nth)
  finally show ?thesis .
qed

lemma product_singleton: "List.product xs [y] = map (\<lambda>x. (x, y)) xs"
  by (induction xs) simp_all

lemma example_single_fields:
  "SIZE example_single_executor = 1" "RANK example_single_executor = 0"
  "cfg_nbuff example_single_executor = - 1"
  by (simp_all add: example_single_executor_def Executor_init_def RankTools_init_def)

lemma example_assigned:
  "chunk_jobs example_single_executor (List.product example_k_grid [0])
     ! RANK example_single_executor = map (\<lambda>n. (real n, 0)) [0..<200]"
  by (simp add: example_single_fields chunk_jobs_single product_singleton example_k_grid_def
      comp_def)

lemma example_remaining_count:
  "length (list_of_set_difference r (map (\<lambda>n. (real n, 0)) [0..<200])
            (concat (map (\<lambda>f. map (take 2) (snd f)) example_state))) = 199"
proof -
  let ?f = "\<lambda>n::nat. (real n, 0::real)"
  have "{j \<in> set (map ?f [0..<200]).
           tuple_of j \<notin> set (concat (map (\<lambda>f. map (take 2) (snd f)) example_state))}
      = ?f ` {1..<200}"
    by (auto simp: example_state_def tuple_of_def)
  moreover have "card (?f ` {1..<200}) = card {1..<200::nat}"
    by (intro card_image) (simp add: inj_on_def)
  ultimately show ?thesis
    by (simp add: length_list_of_set_difference)
qed

text \<open>
  One worker, automatic batch size, 200 assigned grid points of which one has a
  checkpoint record: the buffer is built with batch size 1, while the assigned
  count gives \<open>max (200 div 100) 1 = 2\<close>.
\<close>

theorem batch_size_assigned_counterexample:
  "prepared_nbuff (calculate_prepare example_env example_single_executor example_k_grid [0]
      example_world) = Some 1
   \<and> assigned_count (prep_jobs example_single_executor example_k_grid [0]) = Some 200
   \<and> max (int 200 div 100) 1 \<noteq> (1::int)"
proof -
  let ?assigned = "map (\<lambda>n. (real n, 0::real)) [0..<200]"
  let ?rest = "list_of_set_difference (set_rank example_env) ?assigned
                 (concat (map (\<lambda>f. map (take 2) (snd f)) example_state))"
  have lp: "load_params example_env (cfg example_single_executor) = Inr ()"
    by (simp add: example_env_def)
  have rk: "RANK example_single_executor < SIZE example_single_executor"
    by (simp add: example_single_fields)
  have ne: "?assigned \<noteq> []" by (simp add: upt_conv_Cons)
  from calculate_prepare_resume [OF lp rk example_assigned ne example_dir
      example_state_distinct refl]
  obtain s1 where "calculate_prepare example_env example_single_executor example_k_grid [0]
        example_world
       = Inr (Inr ((), example_single_executor\<lparr>jobs := ?rest\<rparr>,
                   Buffer_init (if 0 < cfg_nbuff example_single_executor
                                then cfg_nbuff example_single_executor
                                else max (int (length ?rest) div 100) 1), s1))"
    by blast
  then have a: "prepared_nbuff (calculate_prepare example_env example_single_executor
      example_k_grid [0] example_world) = Some 1"
    by (simp add: prepared_nbuff_def Buffer_init_def example_single_fields
        example_remaining_count)
  have "prep_jobs example_single_executor example_k_grid [0]
      = Inr (example_single_executor\<lparr>jobs := ?assigned\<rparr>)"
    by (simp only: prep_jobs_chunk [OF rk] example_assigned)
  then have b: "assigned_count (prep_jobs example_single_executor example_k_grid [0]) = Some 200"
    by (simp add: assigned_count_def)
  show ?thesis using a b by simp
qed


lemma example_small_assigned:
  "chunk_jobs (example_single_executor\<lparr>cfg_nbuff := n\<rparr>) (List.product [0, 1] [0, 1 / 2, 1])
     ! RANK (example_single_executor\<lparr>cfg_nbuff := n\<rparr>)
     = [(0, 0), (0, 1 / 2), (0, 1), (1, 0), (1, 1 / 2), (1, 1)]"
  by (simp add: example_single_fields chunk_jobs_single)

theorem calculate_prepare_batch_size_witness:
  "load_params example_env (cfg (example_single_executor\<lparr>cfg_nbuff := - 1\<rparr>)) = Inr ()
   \<and> RANK (example_single_executor\<lparr>cfg_nbuff := - 1\<rparr>)
       < SIZE (example_single_executor\<lparr>cfg_nbuff := - 1\<rparr>)
   \<and> chunk_jobs (example_single_executor\<lparr>cfg_nbuff := - 1\<rparr>) (List.product [0, 1] [0, 1 / 2, 1])
       ! RANK (example_single_executor\<lparr>cfg_nbuff := - 1\<rparr>)
       = [(0, 0), (0, 1 / 2), (0, 1), (1, 0), (1, 1 / 2), (1, 1)]
   \<and> [(0, 0), (0, 1 / 2), (0, 1), (1, 0), (1, 1 / 2), (1, 1 :: real)] \<noteq> ([] :: grid_point list)
   \<and> fs example_world = Some example_results
   \<and> state_dir example_results = Some example_state
   \<and> distinct (map fst example_state)
   \<and> (\<exists>self2 b s1.
         calculate_prepare example_env (example_single_executor\<lparr>cfg_nbuff := - 1\<rparr>)
           [0, 1] [0, 1 / 2, 1] example_world = Inr (Inr ((), self2, b, s1))
       \<and> set (jobs self2) = {(0, 1 / 2), (0, 1), (1, 0), (1, 1 / 2), (1, 1)}
       \<and> distinct (jobs self2)
       \<and> nbuff b = 1 \<and> counter b = 0 \<and> queue b = [])
   \<and> (\<exists>self2 b s1.
         calculate_prepare example_env (example_single_executor\<lparr>cfg_nbuff := 7\<rparr>)
           [0, 1] [0, 1 / 2, 1] example_world = Inr (Inr ((), self2, b, s1))
       \<and> nbuff b = 7 \<and> counter b = 0 \<and> queue b = [])"
proof -
  let ?js = "[(0, 0), (0, 1 / 2), (0, 1), (1, 0), (1, 1 / 2), (1, 1)] :: grid_point list"
  let ?rem = "{(0, 1 / 2), (0, 1), (1, 0), (1, 1 / 2), (1, 1)} :: grid_point set"
  have lp: "load_params example_env (cfg (example_single_executor\<lparr>cfg_nbuff := n\<rparr>)) = Inr ()" for n
    by (simp add: example_env_def)
  have rk: "RANK (example_single_executor\<lparr>cfg_nbuff := n\<rparr>)
      < SIZE (example_single_executor\<lparr>cfg_nbuff := n\<rparr>)" for n
    by (simp add: example_single_fields)
  have ne: "?js \<noteq> []" by simp
  have diff: "set ?js
      - {j. \<exists>f\<in>set example_state. \<exists>ll\<in>set (snd f). take 2 ll = [fst j, snd j]} = ?rem"
    by (auto simp: example_state_def)
  have five: "card ?rem = 5" by simp
  have "\<exists>self2 b s1.
      calculate_prepare example_env (example_single_executor\<lparr>cfg_nbuff := - 1\<rparr>)
        [0, 1] [0, 1 / 2, 1] example_world = Inr (Inr ((), self2, b, s1))
      \<and> set (jobs self2) = ?rem \<and> distinct (jobs self2)
      \<and> nbuff b = max (int (length (jobs self2)) div 100) 1
      \<and> counter b = 0 \<and> queue b = []"
    using calculate_prepare_batch_size [OF lp rk example_small_assigned ne example_dir
      example_state_distinct, of "- 1"]
    unfolding diff by simp
  then obtain self2 b s1 where auto_size:
    "calculate_prepare example_env (example_single_executor\<lparr>cfg_nbuff := - 1\<rparr>)
       [0, 1] [0, 1 / 2, 1] example_world = Inr (Inr ((), self2, b, s1))"
    "set (jobs self2) = ?rem" "distinct (jobs self2)"
    "nbuff b = max (int (length (jobs self2)) div 100) 1"
    "counter b = 0" "queue b = []"
    by blast
  have "length (jobs self2) = card (set (jobs self2))"
    using auto_size(3) by (simp add: distinct_card)
  then have "length (jobs self2) = 5" by (simp only: auto_size(2) five)
  then have one: "nbuff b = 1" using auto_size(4) by simp
  from calculate_prepare_batch_size [OF lp rk example_small_assigned ne example_dir
      example_state_distinct, of 7]
  obtain self3 b3 s3 where fixed:
    "calculate_prepare example_env (example_single_executor\<lparr>cfg_nbuff := 7\<rparr>)
       [0, 1] [0, 1 / 2, 1] example_world = Inr (Inr ((), self3, b3, s3))"
    "nbuff b3 = 7" "counter b3 = 0" "queue b3 = []"
    by auto
  show ?thesis
    using lp rk example_small_assigned ne example_dir example_state_distinct
      auto_size(1,2,3,5,6) one fixed
    by blast
qed

section \<open>The iteration order of sets\<close>

text \<open>The position of an element in a list without duplicates.\<close>

lemma rank_in_list:
  assumes "distinct zs" and "i < length zs"
  shows "length (takeWhile (\<lambda>y. y \<noteq> zs ! i) zs) = i"
  using assms
proof (induction zs arbitrary: i)
  case Nil
  then show ?case by simp
next
  case (Cons z zs)
  show ?case
  proof (cases i)
    case 0
    then show ?thesis by simp
  next
    case (Suc j)
    with Cons.prems have "z \<noteq> zs ! j" "j < length zs" "distinct zs" by auto
    with Cons.IH [of j] Suc show ?thesis by simp
  qed
qed

lemma filter_eq_distinct:
  "distinct xs \<Longrightarrow> k \<in> set xs \<Longrightarrow> filter (\<lambda>x. k = x) xs = [k]"
  by (induction xs) (auto simp: filter_empty_conv)

lemma every_order_is_a_ranking:
  assumes "distinct ys" and "mset zs = mset ys"
  shows "\<exists>r :: 'a \<Rightarrow> nat. sort_key r ys = zs"
proof -
  define r where "r x = length (takeWhile (\<lambda>y. y \<noteq> x) zs)" for x
  have dz: "distinct zs" using assms by (metis mset_eq_imp_distinct_iff)
  have nth: "r (zs ! i) = i" if "i < length zs" for i
    using rank_in_list [OF dz that] by (simp add: r_def)
  have "map r zs = [0..<length zs]"
    by (rule nth_equalityI) (simp_all add: nth)
  then have sorted: "sorted (map r zs)" by simp
  have inj: "inj_on r (set zs)"
    by (metis (no_types, lifting) in_set_conv_nth inj_onI nth)
  have same: "set zs = set ys" using assms(2) by (metis mset_eq_setD)
  have filt: "filter (\<lambda>x. r k = r x) zs = filter (\<lambda>x. r k = r x) ys" if "k \<in> set zs" for k
  proof -
    have "filter (\<lambda>x. r k = r x) zs = filter (\<lambda>x. k = x) zs"
      using inj that by (intro filter_cong) (auto dest: inj_onD)
    also have "\<dots> = [k]" using dz that by (rule filter_eq_distinct)
    also have "\<dots> = filter (\<lambda>x. k = x) ys"
      using assms(1) that same by (simp add: filter_eq_distinct)
    also have "\<dots> = filter (\<lambda>x. r k = r x) ys"
      using inj that same by (intro filter_cong) (auto dest: inj_onD)
    finally show ?thesis .
  qed
  have "sort_key r ys = zs"
    using assms(2) filt sorted by (rule properties_for_sort_key)
  then show ?thesis by blast
qed

text \<open>
  Hence the model of \<^verbatim>\<open>list(set(...) - set(...))\<close> leaves the order open: every
  arrangement of the remaining jobs is the result for some ranking.
\<close>

lemma list_of_set_difference_any_order:
  assumes "mset zs = mset (remdups (filter (\<lambda>j. tuple_of j \<notin> set completed) assigned))"
  shows "\<exists>r. list_of_set_difference r assigned completed = zs"
  unfolding list_of_set_difference_def
  using assms by (intro every_order_is_a_ranking) simp_all

section \<open>A complete run\<close>

text \<open>
  \<^verbatim>\<open>calculate\<close> in dry-run mode on the grids \<open>k = [0]\<close>, \<open>w = [0, 1/2, 1]\<close> with
  one worker and batch size 2, the point \<open>(0, 0)\<close> being checkpointed already:
  the two remaining points are computed, the automatic flush writes them as one
  file, and the final flush writes nothing.
\<close>

lemma calculate_dry_run_example:
  "calculate example_env True example_dry_executor [0] [0, 1 / 2, 1] example_world
     = Inr (1, example_dry_executor\<lparr>jobs := [(0, 1 / 2), (0, 1)]\<rparr>,
            \<lparr>fs = Some (example_results\<lparr>state_dir := Some (example_state @
                 [(''a.pkl'', [[0, 1 / 2, 1 / 2, 1 / 2, 0, 0], [0, 1, 1 / 2, 1 / 2, 0, 0]])])\<rparr>),
             trace = [ListDir, Load ''old.pkl'', Log WARNING 0 DryRunMode,
                      Log INFO 0 (PrintingEvery 1), Log INFO 0 (LargestMatrixSize 0),
                      Dump ''a.pkl''],
             uuid_draws = 1, clock_reads = 2, random_draws = 4\<rparr>)"
proof -
  have f: "SIZE example_dry_executor = 1" "RANK example_dry_executor = 0"
    "cfg_nbuff example_dry_executor = 2" "dry_run example_dry_executor"
    "logger example_dry_executor = \<lparr>rank = 0, debug_flag = False\<rparr>"
    "cfg example_dry_executor = ''config_a''"
    by (simp_all add: example_dry_executor_def Executor_init_def RankTools_init_def)
  have assigned: "chunk_jobs example_dry_executor (List.product [0] [0, 1 / 2, 1])
      ! RANK example_dry_executor = [(0, 0), (0, 1 / 2), (0, 1)]"
    by (simp add: f chunk_jobs_single)
  have prep: "prep_jobs example_dry_executor [0] [0, 1 / 2, 1]
      = Inr (example_dry_executor\<lparr>jobs := [(0, 0), (0, 1 / 2), (0, 1)]\<rparr>)"
    by (simp add: prep_jobs_chunk f chunk_jobs_single)
  have rem: "find_remaining_jobs example_env
        (example_dry_executor\<lparr>jobs := [(0, 0), (0, 1 / 2), (0, 1)]\<rparr>) example_world
      = Inr (example_dry_executor\<lparr>jobs := [(0, 1 / 2), (0, 1)]\<rparr>,
             example_world\<lparr>trace := [ListDir, Load ''old.pkl'']\<rparr>)"
    by (simp add: find_remaining_jobs_def listdir_fullpath_def pickle_load_def
        list_of_set_difference_def tuple_of_def example_env_def example_world_def
        example_results_def example_state_def)
  let ?ex = "example_dry_executor\<lparr>jobs := [(0, 1 / 2), (0, 1)]\<rparr>"
  let ?s1 = "example_world\<lparr>trace := [ListDir, Load ''old.pkl'']\<rparr>"
  let ?s2 = "example_world\<lparr>trace := [ListDir, Load ''old.pkl'', Log WARNING 0 DryRunMode]\<rparr>"
  have nd: "\<not> done_file_exists (fs example_world)"
    by (simp add: done_file_exists_def example_world_def example_results_def)
  have lp: "load_params example_env c = Inr ()" for c
    by (simp add: example_env_def)
  have prepare: "calculate_prepare example_env example_dry_executor [0] [0, 1 / 2, 1] example_world
      = Inr (Inr ((), ?ex, Buffer_init 2, ?s1))"
    by (simp add: calculate_prepare_def lp prep rem buffer_size_def f)
  have prime: "calculate_prime example_env ?ex () ?s1 = Inr (None, ?s2)"
    by (simp add: calculate_prime_def f logger_warning_def emit_def)
  have run: "calculate_run example_env True ?ex None (Buffer_init 2) ?s2
      = Inr (1, \<lparr>fs = Some (example_results\<lparr>state_dir := Some (example_state @
                 [(''a.pkl'', [[0, 1 / 2, 1 / 2, 1 / 2, 0, 0], [0, 1, 1 / 2, 1 / 2, 0, 0]])])\<rparr>),
             trace = [ListDir, Load ''old.pkl'', Log WARNING 0 DryRunMode,
                      Log INFO 0 (PrintingEvery 1), Log INFO 0 (LargestMatrixSize 0),
                      Dump ''a.pkl''],
             uuid_draws = 1, clock_reads = 2, random_draws = 4\<rparr>)"
    by (simp add: calculate_run_def f logger_info_def emit_def Let_def read_clock_def
        calculate_point_def dryrun_random_result_def Buffer_call_def flush_def uuid_pkl_def
        pickle_dump_def Buffer_init_def PRINT_EVERY_PERCENT_def example_env_def
        example_world_def example_results_def example_state_def)
  show ?thesis
    by (simp add: calculate_def nd prepare prime run)
qed

end
